theory Spec2Isabelle
  imports Main "HOL-Library.Sublist"
begin

section \<open>Python values and library functions the handler relies on\<close>

text \<open>
  The model covers \<^verbatim>\<open>src/lambda_function.py\<close>. Python strings are modelled as
  \<^typ>\<open>string\<close>; a \<^typ>\<open>char\<close> stands for a code point below 256, and text with
  code points beyond that range is outside the model. The functions of the standard
  library and of the two third-party libraries that the source calls are modelled next,
  each from its documented behaviour.
\<close>

subsection \<open>Exceptions\<close>

text \<open>
  The handler distinguishes \<^verbatim>\<open>botocore.exceptions.ClientError\<close> from every other
  \<^verbatim>\<open>Exception\<close>. Each exception carries the text \<^verbatim>\<open>str(e)\<close>.
\<close>

datatype exn = ClientError string | Exception string

subsection \<open>Strings\<close>

text \<open>\<^verbatim>\<open>s.startswith(p)\<close> and \<^verbatim>\<open>s.endswith(x)\<close>.\<close>

definition startswith :: "string \<Rightarrow> string \<Rightarrow> bool" where
  "startswith s p = (take (length p) s = p)"

definition endswith :: "string \<Rightarrow> string \<Rightarrow> bool" where
  "endswith s x = (length x \<le> length s \<and> drop (length s - length x) s = x)"

text \<open>
  \<^verbatim>\<open>s.lower()\<close>: below code point 256 the cased upper-case letters are A to Z and the
  Latin-1 letters 0xC0 to 0xDE without the multiplication sign 0xD7; each is 32 below
  its lower-case form.
\<close>

definition lower_char :: "char \<Rightarrow> char" where
  "lower_char c =
     (let n = (of_char c :: nat) in
      if (65 \<le> n \<and> n \<le> 90) \<or> (192 \<le> n \<and> n \<le> 222 \<and> n \<noteq> 215)
      then char_of (n + 32) else c)"

definition lower :: "string \<Rightarrow> string" where
  "lower s = map lower_char s"

text \<open>\<^verbatim>\<open>str(n)\<close> for a natural number, as the f-string \<^verbatim>\<open>f"Table_{idx}"\<close> renders it.\<close>

definition digit_char :: "nat \<Rightarrow> char" where
  "digit_char d = char_of (48 + d)"

function str_nat :: "nat \<Rightarrow> string" where
  "str_nat n = (if n < 10 then [digit_char n] else str_nat (n div 10) @ [digit_char (n mod 10)])"
  by pat_completeness auto
termination
  by (relation "measure (\<lambda>n. n)") auto

declare str_nat.simps [simp del]

definition str_int :: "int \<Rightarrow> string" where
  "str_int i = (if i < 0 then CHR ''-'' # str_nat (nat (- i)) else str_nat (nat i))"

text \<open>
  \<^verbatim>\<open>p.rfind(c)\<close> for a single character: the index of its last occurrence, or -1.
\<close>

definition rfind :: "string \<Rightarrow> char \<Rightarrow> int" where
  "rfind p c = int (length p) - 1 - int (length (takeWhile (\<lambda>x. x \<noteq> c) (rev p)))"

subsection \<open>\<^verbatim>\<open>os.path\<close> (POSIX)\<close>

text \<open>
  \<^verbatim>\<open>
  def basename(p):
      i = p.rfind('/') + 1
      return p[i:]
  \<close>
\<close>

definition basename :: "string \<Rightarrow> string" where
  "basename p = (let i = rfind p (CHR ''/'') + 1 in drop (nat i) p)"

text \<open>
  \<^verbatim>\<open>
  def splitext(p):
      sepIndex = p.rfind('/')
      dotIndex = p.rfind('.')
      if dotIndex > sepIndex:
          # skip all leading dots
          filenameIndex = sepIndex + 1
          while filenameIndex < dotIndex:
              if p[filenameIndex:filenameIndex+1] != '.':
                  return p[:dotIndex], p[dotIndex:]
              filenameIndex += 1
      return p, p[:0]
  \<close>
  The loop is \<open>non_dot_before\<close>: it answers whether the function returns from inside it.
\<close>

function non_dot_before :: "string \<Rightarrow> nat \<Rightarrow> nat \<Rightarrow> bool" where
  "non_dot_before p filenameIndex dotIndex =
     (if filenameIndex < dotIndex
      then (if take 1 (drop filenameIndex p) \<noteq> ''.'' then True
            else non_dot_before p (Suc filenameIndex) dotIndex)
      else False)"
  by pat_completeness auto
termination
  by (relation "measure (\<lambda>(p, i, d). d - i)") auto

declare non_dot_before.simps [simp del]

definition splitext :: "string \<Rightarrow> string \<times> string" where
  "splitext p =
     (let sepIndex = rfind p (CHR ''/'');
          dotIndex = rfind p (CHR ''.'')
      in if dotIndex > sepIndex \<and> non_dot_before p (nat (sepIndex + 1)) (nat dotIndex)
         then (take (nat dotIndex) p, drop (nat dotIndex) p)
         else (p, []))"

subsection \<open>\<^verbatim>\<open>urllib.parse.unquote_plus\<close>\<close>

text \<open>
  \<^verbatim>\<open>
  def unquote_plus(string):
      string = string.replace('+', ' ')
      return unquote(string)
  \<close>
  The percent-decoder \<^verbatim>\<open>unquote\<close> itself is a parameter of the model (a field of the
  environment below).
\<close>

definition replace_plus :: "string \<Rightarrow> string" where
  "replace_plus s = map (\<lambda>c. if c = CHR ''+'' then CHR '' '' else c) s"

definition unquote_plus :: "(string \<Rightarrow> string) \<Rightarrow> string \<Rightarrow> string" where
  "unquote_plus unquote_fn s = unquote_fn (replace_plus s)"

subsection \<open>\<^verbatim>\<open>json.dumps\<close> of the response body\<close>

text \<open>
  \<^verbatim>\<open>json.dumps({"message": message})\<close> with the default \<^verbatim>\<open>ensure_ascii=True\<close>: the
  quote and the backslash are escaped with a backslash, five control characters have
  short escapes, the other characters outside 0x20..0x7E become \<^verbatim>\<open>\u00xx\<close>.
\<close>

definition hex_digit :: "nat \<Rightarrow> char" where
  "hex_digit d = (if d < 10 then char_of (48 + d) else char_of (87 + d))"

definition json_escape_char :: "char \<Rightarrow> string" where
  "json_escape_char c =
     (let n = (of_char c :: nat) in
      if n = 0x22 then [CHR 0x5C, CHR 0x22]
      else if n = 0x5C then [CHR 0x5C, CHR 0x5C]
      else if n = 0x08 then [CHR 0x5C, CHR ''b'']
      else if n = 0x0C then [CHR 0x5C, CHR ''f'']
      else if n = 0x0A then [CHR 0x5C, CHR ''n'']
      else if n = 0x0D then [CHR 0x5C, CHR ''r'']
      else if n = 0x09 then [CHR 0x5C, CHR ''t'']
      else if 0x20 \<le> n \<and> n \<le> 0x7E then [c]
      else [CHR 0x5C, CHR ''u'', CHR ''0'', CHR ''0'', hex_digit (n div 16), hex_digit (n mod 16)])"

definition json_string :: "string \<Rightarrow> string" where
  "json_string s = [CHR 0x22] @ concat (map json_escape_char s) @ [CHR 0x22]"

definition json_dumps_message :: "string \<Rightarrow> string" where
  "json_dumps_message message =
     ''{'' @ json_string ''message'' @ '': '' @ json_string message @ ''}''"

section \<open>The response builder\<close>

record response =
  statusCode :: int
  body :: string

definition create_response :: "int \<Rightarrow> string \<Rightarrow> response" where
  "create_response status_code message =
     \<lparr>statusCode = status_code, body = json_dumps_message message\<rparr>"

section \<open>The table extractor\<close>

text \<open>
  A cell as the page detector reports it: absent (\<^verbatim>\<open>None\<close>), a string, or another
  value that \<^verbatim>\<open>str\<close> renders (an integer stands for those).
\<close>

datatype pycell = PyNone | PyStr string | PyInt int

text \<open>\<^verbatim>\<open>str(cell) if cell is not None else ""\<close>\<close>

fun clean_cell :: "pycell \<Rightarrow> string" where
  "clean_cell PyNone = []"
| "clean_cell (PyStr s) = s"
| "clean_cell (PyInt i) = str_int i"

text \<open>
  The two loops of \<^verbatim>\<open>extract_tables_from_pdf\<close> over an opened document, given for
  each page the list \<^verbatim>\<open>page.extract_tables()\<close>. The accumulator is the list
  \<^verbatim>\<open>tables\<close> that the source appends to; \<^verbatim>\<open>if table:\<close> is true for a non-empty list.
\<close>

fun page_tables_loop :: "string list list list \<Rightarrow> pycell list list list \<Rightarrow> string list list list" where
  "page_tables_loop tables [] = tables"
| "page_tables_loop tables (table # page_tables) =
     (if table \<noteq> []
      then (let cleaned_table = map (\<lambda>row. map clean_cell row) table
            in page_tables_loop (tables @ [cleaned_table]) page_tables)
      else page_tables_loop tables page_tables)"

fun pages_loop :: "string list list list \<Rightarrow> pycell list list list list \<Rightarrow> string list list list" where
  "pages_loop tables [] = tables"
| "pages_loop tables (page # pages) = pages_loop (page_tables_loop tables page) pages"

section \<open>The workbook builder\<close>

text \<open>
  An openpyxl worksheet, as far as the source uses it: its title, the cell values by
  1-based (row, column), the largest row and column index of a cell that was written,
  and the column widths by column letter. A workbook is its list of worksheets.
\<close>

record worksheet =
  title :: string
  cells :: "nat \<times> nat \<Rightarrow> string option"
  max_row :: nat
  max_column :: nat
  column_dimensions :: "string \<Rightarrow> nat option"

record workbook =
  worksheets :: "worksheet list"

definition new_sheet :: "string \<Rightarrow> worksheet" where
  "new_sheet t =
     \<lparr>title = t, cells = (\<lambda>_. None), max_row = 0, max_column = 0,
      column_dimensions = (\<lambda>_. None)\<rparr>"

text \<open>\<^verbatim>\<open>Workbook()\<close> starts with one worksheet, titled \<^verbatim>\<open>Sheet\<close>, which is the active one.\<close>

definition Workbook :: workbook where
  "Workbook = \<lparr>worksheets = [new_sheet ''Sheet'']\<rparr>"

text \<open>\<^verbatim>\<open>workbook.remove(workbook.active)\<close>: the active sheet is the one at index 0.\<close>

definition remove_active :: "workbook \<Rightarrow> workbook" where
  "remove_active wb = wb\<lparr>worksheets := drop 1 (worksheets wb)\<rparr>"

text \<open>
  The check the library applies to a string before it stores it in a cell: the value is
  cut to its first 32767 characters, and the library raises \<^verbatim>\<open>IllegalCharacterError\<close>
  when what is left holds a control character with code 0 to 8, 11, 12 or 14 to 31
  (shown with the message of openpyxl 3.1).
  \<^verbatim>\<open>
  def check_string(self, value):
      value = value[:32767]
      if next(ILLEGAL_CHARACTERS_RE.finditer(value), None):
          raise IllegalCharacterError(f"{value} cannot be used in worksheets.")
      return value
  \<close>
\<close>

definition illegal_character :: "char \<Rightarrow> bool" where
  "illegal_character c =
     (let n = (of_char c :: nat) in n \<le> 8 \<or> n = 11 \<or> n = 12 \<or> (14 \<le> n \<and> n \<le> 31))"

definition check_string :: "string \<Rightarrow> exn + string" where
  "check_string v =
     (let v' = take 32767 v
      in if list_ex illegal_character v'
         then Inl (Exception (v' @ '' cannot be used in worksheets.''))
         else Inr v')"

text \<open>
  \<^verbatim>\<open>worksheet.cell(row=r, column=c, value=v)\<close> with a string \<open>v\<close> stores the checked
  value and extends the sheet's dimensions, or raises.
\<close>

definition cell :: "worksheet \<Rightarrow> nat \<Rightarrow> nat \<Rightarrow> string \<Rightarrow> exn + worksheet" where
  "cell ws r c v =
     (case check_string v of
        Inl e \<Rightarrow> Inl e
      | Inr v' \<Rightarrow>
          Inr (ws\<lparr>cells := (cells ws)((r, c) := Some v'),
                  max_row := max (max_row ws) r,
                  max_column := max (max_column ws) c\<rparr>))"

text \<open>
  \<^verbatim>\<open>worksheet.columns\<close>: the columns 1 to \<open>max_column\<close>, each with the values of its
  cells in the rows 1 to \<open>max_row\<close>; a cell that was never written has the value
  \<^verbatim>\<open>None\<close>. A sheet without cells has no columns.
\<close>

definition columns :: "worksheet \<Rightarrow> (nat \<times> string option list) list" where
  "columns ws =
     map (\<lambda>c. (c, map (\<lambda>r. cells ws (r, c)) [1..<Suc (max_row ws)])) [1..<Suc (max_column ws)]"

text \<open>
  The letters of a column: A to Z, then AA, AB and so on. \<^verbatim>\<open>get_column_letter\<close> gives
  them for the indices 1 to 18278 (ZZZ) and raises \<^verbatim>\<open>ValueError\<close> for any other index;
  \<^verbatim>\<open>cell.column_letter\<close> is \<^verbatim>\<open>get_column_letter\<close> of the cell's column.
\<close>

function column_letter :: "nat \<Rightarrow> string" where
  "column_letter n =
     (if n = 0 then []
      else column_letter ((n - 1) div 26) @ [char_of (65 + (n - 1) mod 26)])"
  by pat_completeness auto
termination
  by (relation "measure (\<lambda>n. n)") auto

declare column_letter.simps [simp del]

definition get_column_letter :: "nat \<Rightarrow> exn + string" where
  "get_column_letter idx =
     (if 1 \<le> idx \<and> idx \<le> 18278 then Inr (column_letter idx)
      else Inl (Exception (''Invalid column index '' @ str_nat idx)))"

text \<open>
  The loop over the cells of a row (\<^verbatim>\<open>enumerate(row, start=1)\<close>); an exception of
  \<^verbatim>\<open>worksheet.cell\<close> leaves it.
\<close>

fun write_row :: "worksheet \<Rightarrow> nat \<Rightarrow> nat \<Rightarrow> string list \<Rightarrow> exn + worksheet" where
  "write_row ws row_idx col_idx [] = Inr ws"
| "write_row ws row_idx col_idx (cell_value # row) =
     (case cell ws row_idx col_idx cell_value of
        Inl e \<Rightarrow> Inl e
      | Inr ws' \<Rightarrow> write_row ws' row_idx (Suc col_idx) row)"

text \<open>The loop over the rows of a table (\<^verbatim>\<open>enumerate(table, start=1)\<close>).\<close>

fun write_rows :: "worksheet \<Rightarrow> nat \<Rightarrow> string list list \<Rightarrow> exn + worksheet" where
  "write_rows ws row_idx [] = Inr ws"
| "write_rows ws row_idx (row # table) =
     (case write_row ws row_idx 1 row of
        Inl e \<Rightarrow> Inl e
      | Inr ws' \<Rightarrow> write_rows ws' (Suc row_idx) table)"

text \<open>
  The loop over the cells of one column. \<^verbatim>\<open>if cell.value:\<close> is false for \<^verbatim>\<open>None\<close> and
  for the empty string. The values are strings, so \<^verbatim>\<open>len(str(cell.value))\<close> is the
  length of the value and the \<^verbatim>\<open>except\<close> branch is never taken.
\<close>

fun max_length_loop :: "nat \<Rightarrow> string option list \<Rightarrow> nat" where
  "max_length_loop max_length [] = max_length"
| "max_length_loop max_length (None # column) = max_length_loop max_length column"
| "max_length_loop max_length (Some v # column) =
     (if v \<noteq> [] then max_length_loop (max max_length (length v)) column
      else max_length_loop max_length column)"

text \<open>
  The loop over \<^verbatim>\<open>worksheet.columns\<close>; the exception of \<^verbatim>\<open>column_letter\<close> leaves it.
\<close>

fun adjust_widths :: "worksheet \<Rightarrow> (nat \<times> string option list) list \<Rightarrow> exn + worksheet" where
  "adjust_widths ws [] = Inr ws"
| "adjust_widths ws ((c, column) # cols) =
     (case get_column_letter c of
        Inl e \<Rightarrow> Inl e
      | Inr letter \<Rightarrow>
          (let max_length = max_length_loop 0 column;
               adjusted_width = min (max_length + 2) 50
           in adjust_widths
                (ws\<lparr>column_dimensions := (column_dimensions ws)(letter := Some adjusted_width)\<rparr>)
                cols))"

text \<open>
  The loop over \<^verbatim>\<open>enumerate(tables, start=1)\<close>. \<^verbatim>\<open>create_sheet\<close> appends the new sheet
  to the workbook; the titles \<^verbatim>\<open>Table_1\<close>, \<^verbatim>\<open>Table_2\<close>, ... differ from each other, so
  the library keeps them as given.
\<close>

fun add_tables :: "workbook \<Rightarrow> nat \<Rightarrow> string list list list \<Rightarrow> exn + workbook" where
  "add_tables wb idx [] = Inr wb"
| "add_tables wb idx (table # tables) =
     (let sheet_name = ''Table_'' @ str_nat idx
      in case write_rows (new_sheet sheet_name) 1 table of
           Inl e \<Rightarrow> Inl e
         | Inr ws \<Rightarrow>
             (case adjust_widths ws (columns ws) of
                Inl e \<Rightarrow> Inl e
              | Inr ws' \<Rightarrow>
                  add_tables (wb\<lparr>worksheets := worksheets wb @ [ws']\<rparr>) (Suc idx) tables))"

text \<open>
  Lines 176 to 203 of \<^verbatim>\<open>create_excel_from_tables\<close>: the workbook in memory, before it is
  saved, or the exception that writing a cell or naming a column raised.
\<close>

definition build_workbook :: "string list list list \<Rightarrow> exn + workbook" where
  "build_workbook tables =
     add_tables (if tables \<noteq> [] then remove_active Workbook else Workbook) 1 tables"

section \<open>The environment\<close>

text \<open>
  What the module reads from outside itself: the two folder names of the configuration,
  the percent-decoder, the storage client, the document library and the serializer of the
  spreadsheet library. The storage calls act on a world \<open>'w\<close> and may raise; opening and
  reading a document and saving a workbook are functions of their input that may raise.
  \<open>pdf_page_tables\<close> gives, for the bytes of a document, the result of
  \<^verbatim>\<open>page.extract_tables()\<close> for each page in order.
\<close>

record 'w env =
  INPUT_FOLDER_NAME :: string
  OUTPUT_FOLDER_NAME :: string
  unquote :: "string \<Rightarrow> string"
  get_object :: "'w \<Rightarrow> string \<Rightarrow> string \<Rightarrow> (exn + string) \<times> 'w"
  put_object :: "'w \<Rightarrow> string \<Rightarrow> string \<Rightarrow> string \<Rightarrow> string \<Rightarrow> (exn + unit) \<times> 'w"
  pdf_page_tables :: "string \<Rightarrow> exn + pycell list list list list"
  save :: "workbook \<Rightarrow> exn + string"

text \<open>The calls that leave the module, in the order they are made.\<close>

datatype call =
  GetObject string string
  | PdfOpen string
  | PutObject string string string string

definition extract_tables_from_pdf :: "'w env \<Rightarrow> string \<Rightarrow> exn + string list list list" where
  "extract_tables_from_pdf env pdf_content =
     (case pdf_page_tables env pdf_content of
        Inl e \<Rightarrow> Inl e
      | Inr pages \<Rightarrow> Inr (pages_loop [] pages))"

definition create_excel_from_tables :: "'w env \<Rightarrow> string list list list \<Rightarrow> exn + string" where
  "create_excel_from_tables env tables =
     (case build_workbook tables of
        Inl e \<Rightarrow> Inl e
      | Inr wb \<Rightarrow> save env wb)"

section \<open>The conversion orchestrator\<close>

definition no_tables_message :: string where
  "no_tables_message = ''No tables found in the PDF file''"

definition xlsx_content_type :: string where
  "xlsx_content_type = ''application/vnd.openxmlformats-officedocument.spreadsheetml.sheet''"

text \<open>Lines 116 to 118 of \<^verbatim>\<open>process_pdf\<close>.\<close>

definition output_key :: "'w env \<Rightarrow> string \<Rightarrow> string" where
  "output_key env key =
     (let filename = basename key;
          filename_without_ext = fst (splitext filename)
      in OUTPUT_FOLDER_NAME env @ ''/'' @ filename_without_ext @ ''.xlsx'')"

text \<open>
  \<^verbatim>\<open>process_pdf\<close> returns normally (\<open>Inr ()\<close>) or raises, with the world it leaves and
  the calls it made.
\<close>

definition process_pdf :: "'w env \<Rightarrow> string \<Rightarrow> string \<Rightarrow> 'w \<Rightarrow> (exn + unit) \<times> 'w \<times> call list" where
  "process_pdf env bucket key w =
     (case get_object env w bucket key of
        (Inl e, w1) \<Rightarrow> (Inl e, w1, [GetObject bucket key])
      | (Inr pdf_content, w1) \<Rightarrow>
          (case extract_tables_from_pdf env pdf_content of
             Inl e \<Rightarrow> (Inl e, w1, [GetObject bucket key, PdfOpen pdf_content])
           | Inr extracted \<Rightarrow>
               (let tables = (if extracted = [] then [[[no_tables_message]]] else extracted)
                in case create_excel_from_tables env tables of
                     Inl e \<Rightarrow> (Inl e, w1, [GetObject bucket key, PdfOpen pdf_content])
                   | Inr excel_content \<Rightarrow>
                       (case put_object env w1 bucket (output_key env key) excel_content
                               xlsx_content_type of
                          (r, w2) \<Rightarrow>
                            (r, w2,
                             [GetObject bucket key, PdfOpen pdf_content,
                              PutObject bucket (output_key env key) excel_content
                                xlsx_content_type])))))"

section \<open>The event handler\<close>

text \<open>
  A record of the notification, with the two fields the handler reads:
  \<^verbatim>\<open>record["s3"]["bucket"]["name"]\<close> and \<^verbatim>\<open>record["s3"]["object"]["key"]\<close>. An event is
  its \<^verbatim>\<open>Records\<close> list, or \<open>None\<close> when the key is absent. Records have the shape of
  storage notifications; a record without one of the two fields is outside the model.
\<close>

record s3_record =
  bucket_name :: string
  object_key :: string

type_synonym event = "s3_record list option"

text \<open>The \<^verbatim>\<open>for record in records\<close> loop; an exception leaves it at once.\<close>

fun records_loop :: "'w env \<Rightarrow> s3_record list \<Rightarrow> 'w \<Rightarrow> (exn + unit) \<times> 'w \<times> call list" where
  "records_loop env [] w = (Inr (), w, [])"
| "records_loop env (record # records) w =
     (let bucket = bucket_name record;
          key = unquote_plus (unquote env) (object_key record)
      in if \<not> startswith key (INPUT_FOLDER_NAME env @ ''/'') then records_loop env records w
         else if \<not> endswith (lower key) ''.pdf'' then records_loop env records w
         else (case process_pdf env bucket key w of
                 (Inl e, w1, tr) \<Rightarrow> (Inl e, w1, tr)
               | (Inr u, w1, tr) \<Rightarrow>
                   (case records_loop env records w1 of
                      (r, w2, tr') \<Rightarrow> (r, w2, tr @ tr'))))"

definition lambda_handler :: "'w env \<Rightarrow> event \<Rightarrow> 'w \<Rightarrow> response \<times> 'w \<times> call list" where
  "lambda_handler env event w =
     (let records = (case event of None \<Rightarrow> [] | Some rs \<Rightarrow> rs)
      in if records = [] then (create_response 400 ''No records found in event'', w, [])
         else (case records_loop env records w of
                 (Inr u, w1, tr) \<Rightarrow>
                   (create_response 200 ''PDF processing completed successfully'', w1, tr)
               | (Inl (ClientError msg), w1, tr) \<Rightarrow>
                   (create_response 500 (''AWS Error: '' @ msg), w1, tr)
               | (Inl (Exception msg), w1, tr) \<Rightarrow>
                   (create_response 500 (''Error: '' @ msg), w1, tr)))"

section \<open>Notions the properties are stated with\<close>

text \<open>
  The spellings of the suffix \<^verbatim>\<open>.pdf\<close> in either case, the key of a record after
  decoding, and what it means for the handler to pass over a record: its decoded key
  is outside the input folder or has no such suffix.
\<close>

definition pdf_spellings :: "string list" where
  "pdf_spellings = [''.pdf'', ''.pdF'', ''.pDf'', ''.pDF'', ''.Pdf'', ''.PdF'', ''.PDf'', ''.PDF'']"

definition decoded_key :: "'w env \<Rightarrow> s3_record \<Rightarrow> string" where
  "decoded_key env r = unquote env (replace_plus (object_key r))"

definition skipped :: "'w env \<Rightarrow> s3_record \<Rightarrow> bool" where
  "skipped env r =
     (\<not> prefix (INPUT_FOLDER_NAME env @ ''/'') (decoded_key env r) \<or>
      \<not> (\<exists>ext \<in> set pdf_spellings. suffix ext (decoded_key env r)))"

text \<open>
  A cell value the library accepts, a TableSet it accepts (every cell is accepted and no
  row has more cells than there are column letters), the worksheet that one round of
  the loop over the tables builds, and the longest value in a column of a sheet (0 when
  the column has no value).
\<close>

definition legal :: "string \<Rightarrow> bool" where
  "legal v = (\<forall>c \<in> set (take 32767 v). \<not> illegal_character c)"

definition accepted :: "string list list list \<Rightarrow> bool" where
  "accepted tables =
     (\<forall>t \<in> set tables. \<forall>row \<in> set t. length row \<le> 18278 \<and> (\<forall>v \<in> set row. legal v))"

definition table_sheet :: "nat \<Rightarrow> string list list \<Rightarrow> exn + worksheet" where
  "table_sheet idx table =
     (case write_rows (new_sheet (''Table_'' @ str_nat idx)) 1 table of
        Inl e \<Rightarrow> Inl e
      | Inr ws \<Rightarrow> adjust_widths ws (columns ws))"

definition column_max_length :: "worksheet \<Rightarrow> nat \<Rightarrow> nat" where
  "column_max_length ws c =
     Max (insert 0 ((\<lambda>r. case cells ws (r, c) of None \<Rightarrow> 0 | Some v \<Rightarrow> length v) `
                      {1..max_row ws}))"

subsection \<open>A stand-in environment\<close>

text \<open>
  For the examples: the storage is a finite store in which reading a missing object
  raises a client error; the document library knows two documents (one with a table of two cells and an empty
  table on its first page, one without tables) and raises on any other content; saving always
  succeeds. The percent-decoder is the identity, as \<^verbatim>\<open>unquote\<close> is on a key without a
  percent sign.
\<close>

type_synonym mock_store = "string \<times> string \<Rightarrow> string option"

definition mock_env :: "mock_store env" where
  "mock_env =
     \<lparr>INPUT_FOLDER_NAME = ''input-pdf-files'',
      OUTPUT_FOLDER_NAME = ''output-files'',
      unquote = (\<lambda>s. s),
      get_object = (\<lambda>w b k. case w (b, k) of
                       None \<Rightarrow> (Inl (ClientError ''NoSuchKey''), w)
                     | Some content \<Rightarrow> (Inr content, w)),
      put_object = (\<lambda>w b k content ct. (Inr (), w((b, k) := Some content))),
      pdf_page_tables = (\<lambda>content.
                       if content = ''one table'' then Inr [[[[PyStr ''a'', PyNone]], []], []]
                       else if content = ''no tables'' then Inr [[]]
                       else Inl (Exception ''not a PDF'')),
      save = (\<lambda>wb. Inr ''PK'')\<rparr>"

definition mock_store :: mock_store where
  "mock_store =
     (\<lambda>_. None)
       ((''b'', ''input-pdf-files/my report.pdf'') := Some ''one table'',
        (''b'', ''input-pdf-files/empty.pdf'') := Some ''no tables'',
        (''b'', ''input-pdf-files/broken.pdf'') := Some ''garbage'')"

section \<open>Strings: prefixes, suffixes and case\<close>

lemma startswith_prefix: "startswith s p = prefix p s"
  unfolding startswith_def prefix_def
  by (metis append_eq_conv_conj append_take_drop_id)

lemma endswith_suffix: "endswith s x = suffix x s"
  unfolding endswith_def suffix_def
  by (metis append_eq_conv_conj append_take_drop_id length_append diff_add_inverse2 le_add2 length_drop)


lemma of_char_lt_256: "(of_char c :: nat) < 256"
  by (cases c) simp

lemma lower_char_cases:
  "lower_char a = b \<longleftrightarrow>
     (let n = (of_char a :: nat) in
      if (65 \<le> n \<and> n \<le> 90) \<or> (192 \<le> n \<and> n \<le> 222 \<and> n \<noteq> 215)
      then (of_char b :: nat) = n + 32 else b = a)"
proof -
  let ?n = "of_char a :: nat"
  have lt: "?n < 256" by (rule of_char_lt_256)
  show ?thesis
  proof (cases "(65 \<le> ?n \<and> ?n \<le> 90) \<or> (192 \<le> ?n \<and> ?n \<le> 222 \<and> ?n \<noteq> 215)")
    case True
    then have small: "?n + 32 < 256" by auto
    have "char_of (?n + 32) = b \<longleftrightarrow> (of_char b :: nat) = ?n + 32"
    proof
      assume "char_of (?n + 32) = b"
      then have "(of_char b :: nat) = of_char (char_of (?n + 32) :: char)" by simp
      also have "\<dots> = (?n + 32) mod 256" by (simp only: of_char_of)
      finally show "(of_char b :: nat) = ?n + 32" using small by simp
    next
      assume "(of_char b :: nat) = ?n + 32"
      then have "char_of (of_char b :: nat) = (char_of (?n + 32) :: char)" by simp
      then show "char_of (?n + 32) = b" by simp
    qed
    with True show ?thesis by (simp add: lower_char_def Let_def)
  next
    case False
    then show ?thesis by (auto simp add: lower_char_def Let_def)
  qed
qed

lemma lower_char_dot: "lower_char a = CHR ''.'' \<longleftrightarrow> a = CHR ''.''"
  by (auto simp add: lower_char_cases Let_def)


lemma of_char_eq_iff: "(of_char a :: nat) = of_char b \<longleftrightarrow> a = b"
  by (metis char_of_char)

lemma lower_char_p: "lower_char a = CHR ''p'' \<longleftrightarrow> a = CHR ''p'' \<or> a = CHR ''P''"
proof -
  have "(of_char a :: nat) = 80 \<longleftrightarrow> a = CHR ''P''"
    using of_char_eq_iff [of a "CHR ''P''"] by simp
  then show ?thesis
    by (auto simp add: lower_char_cases Let_def)
qed

lemma lower_char_d: "lower_char a = CHR ''d'' \<longleftrightarrow> a = CHR ''d'' \<or> a = CHR ''D''"
proof -
  have "(of_char a :: nat) = 68 \<longleftrightarrow> a = CHR ''D''"
    using of_char_eq_iff [of a "CHR ''D''"] by simp
  then show ?thesis
    by (auto simp add: lower_char_cases Let_def)
qed

lemma lower_char_f: "lower_char a = CHR ''f'' \<longleftrightarrow> a = CHR ''f'' \<or> a = CHR ''F''"
proof -
  have "(of_char a :: nat) = 70 \<longleftrightarrow> a = CHR ''F''"
    using of_char_eq_iff [of a "CHR ''F''"] by simp
  then show ?thesis
    by (auto simp add: lower_char_cases Let_def)
qed

lemma suffix_map_pdf:
  "suffix ''.pdf'' (map lower_char key) \<longleftrightarrow> (\<exists>ext \<in> set pdf_spellings. suffix ext key)"
proof
  assume "suffix ''.pdf'' (map lower_char key)"
  then obtain zs where "map lower_char key = zs @ ''.pdf''" by (auto simp: suffix_def)
  then obtain stem e where k: "key = stem @ e" and e: "map lower_char e = ''.pdf''"
    by (auto simp: map_eq_append_conv)
  from e obtain a b c d where abcd: "e = [a, b, c, d]"
    and l: "lower_char a = CHR ''.''" "lower_char b = CHR ''p''" "lower_char c = CHR ''d''" "lower_char d = CHR ''f''"
    by (auto simp: map_eq_Cons_conv)
  from l have "e \<in> set pdf_spellings"
    unfolding abcd lower_char_dot lower_char_p lower_char_d lower_char_f pdf_spellings_def
    by auto
  with k show "\<exists>ext \<in> set pdf_spellings. suffix ext key" by (auto simp: suffix_def)
next
  assume "\<exists>ext \<in> set pdf_spellings. suffix ext key"
  then obtain ext stem where "ext \<in> set pdf_spellings" and k: "key = stem @ ext"
    by (auto simp: suffix_def)
  then have "map lower_char ext = ''.pdf''"
    by (auto simp: pdf_spellings_def lower_char_dot lower_char_p lower_char_d lower_char_f)
  with k show "suffix ''.pdf'' (map lower_char key)" by (simp add: suffix_def)
qed

section \<open>The record loop\<close>

lemma records_loop_append:
  "records_loop env (xs @ ys) w =
     (case records_loop env xs w of
        (Inl e, w1, tr) \<Rightarrow> (Inl e, w1, tr)
      | (Inr u, w1, tr) \<Rightarrow>
          (case records_loop env ys w1 of (r, w2, tr') \<Rightarrow> (r, w2, tr @ tr')))"
  by (induction xs arbitrary: w) (auto simp: Let_def split: prod.splits sum.splits)

lemma process_pdf_calls:
  "c \<in> set (snd (snd (process_pdf env bucket key w))) \<Longrightarrow>
     c = GetObject bucket key \<or> (\<exists>content. c = PdfOpen content) \<or>
     (\<exists>content. c = PutObject bucket (output_key env key) content xlsx_content_type)"
  by (auto simp: process_pdf_def Let_def split: prod.splits sum.splits if_splits)

lemma process_pdf_first_call:
  "\<exists>rest. snd (snd (process_pdf env bucket key w)) = GetObject bucket key # rest"
  by (auto simp: process_pdf_def Let_def split: prod.splits sum.splits if_splits)

lemma records_loop_skip:
  "skipped env r \<Longrightarrow> records_loop env (r # rs) w = records_loop env rs w"
  by (auto simp: skipped_def decoded_key_def unquote_plus_def Let_def startswith_prefix
      endswith_suffix lower_def suffix_map_pdf)

lemma records_loop_reads_qualify:
  "GetObject b k \<in> set (snd (snd (records_loop env rs w))) \<Longrightarrow>
     prefix (INPUT_FOLDER_NAME env @ ''/'') k \<and> (\<exists>ext \<in> set pdf_spellings. suffix ext k)"
proof (induction rs arbitrary: w)
  case Nil
  then show ?case by simp
next
  case (Cons r rs)
  show ?case
  proof (cases "skipped env r")
    case True
    with Cons show ?thesis by (simp add: records_loop_skip del: records_loop.simps)
  next
    case False
    let ?key = "unquote_plus (unquote env) (object_key r)"
    from False have q: "startswith ?key (INPUT_FOLDER_NAME env @ ''/'')" "endswith (lower ?key) ''.pdf''"
      by (auto simp: skipped_def decoded_key_def unquote_plus_def startswith_prefix endswith_suffix
          lower_def suffix_map_pdf)
    obtain res w1 tr where p: "process_pdf env (bucket_name r) ?key w = (res, w1, tr)"
      by (cases "process_pdf env (bucket_name r) ?key w") auto
    obtain res2 w2 tr2 where l: "records_loop env rs w1 = (res2, w2, tr2)"
      by (cases "records_loop env rs w1") auto
    from Cons.prems q p l have "GetObject b k \<in> set tr \<or> GetObject b k \<in> set tr2"
      by (cases res) (auto simp: Let_def)
    then show ?thesis
    proof
      assume "GetObject b k \<in> set tr"
      with p have "GetObject b k \<in> set (snd (snd (process_pdf env (bucket_name r) ?key w)))" by simp
      from process_pdf_calls [OF this] have "k = ?key" by auto
      with False show ?thesis by (simp add: skipped_def decoded_key_def unquote_plus_def)
    next
      assume "GetObject b k \<in> set tr2"
      with l Cons.IH [of w1] show ?thesis by simp
    qed
  qed
qed

lemma records_loop_all_skipped:
  "\<forall>r \<in> set rs. skipped env r \<Longrightarrow> records_loop env rs w = (Inr (), w, [])"
  by (induction rs) (simp_all add: records_loop_skip del: records_loop.simps(2))

lemma lambda_handler_calls:
  "snd (snd (lambda_handler env (Some rs) w)) = snd (snd (records_loop env rs w))"
  by (cases rs) (auto simp: lambda_handler_def Let_def split: prod.splits sum.splits exn.splits)

lemma lambda_handler_world:
  "fst (snd (lambda_handler env (Some rs) w)) = fst (snd (records_loop env rs w))"
  by (cases rs) (auto simp: lambda_handler_def Let_def split: prod.splits sum.splits exn.splits)

lemma records_loop_convert:
  "\<not> skipped env r \<Longrightarrow>
     records_loop env (r # rs) w =
       (case process_pdf env (bucket_name r) (decoded_key env r) w of
          (Inl e, w1, tr) \<Rightarrow> (Inl e, w1, tr)
        | (Inr u, w1, tr) \<Rightarrow>
            (case records_loop env rs w1 of (res, w2, tr') \<Rightarrow> (res, w2, tr @ tr')))"
  by (auto simp: skipped_def decoded_key_def unquote_plus_def Let_def startswith_prefix
      endswith_suffix lower_def suffix_map_pdf)

section \<open>The workbook builder: lemmas\<close>

subsection \<open>Writing the cells\<close>

lemma check_string_cases:
  "check_string v =
     (if legal v then Inr (take 32767 v)
      else Inl (Exception (take 32767 v @ '' cannot be used in worksheets.'')))"
  by (simp add: check_string_def legal_def Let_def list_ex_iff)

lemma cell_cases:
  "cell ws r c v =
     (if legal v
      then Inr (ws\<lparr>cells := (cells ws)((r, c) := Some (take 32767 v)),
                   max_row := max (max_row ws) r,
                   max_column := max (max_column ws) c\<rparr>)
      else Inl (Exception (take 32767 v @ '' cannot be used in worksheets.'')))"
  by (simp add: cell_def check_string_cases)

lemma write_row_total:
  "\<forall>v \<in> set row. legal v \<Longrightarrow> \<exists>ws'. write_row ws r c row = Inr ws'"
  by (induction row arbitrary: ws c) (simp_all add: cell_cases)

lemma write_row_legal:
  "write_row ws r c row = Inr ws' \<Longrightarrow> \<forall>v \<in> set row. legal v"
  by (induction row arbitrary: ws c) (auto simp: cell_cases split: if_splits)

lemma write_row_fields:
  "write_row ws r c row = Inr ws' \<Longrightarrow>
     title ws' = title ws \<and> column_dimensions ws' = column_dimensions ws"
  by (induction row arbitrary: ws c) (auto simp: cell_cases split: if_splits)

lemma write_row_cells:
  "write_row ws r c row = Inr ws' \<Longrightarrow>
     cells ws' (r', c') =
       (if r' = r \<and> c \<le> c' \<and> c' < c + length row then Some (take 32767 (row ! (c' - c)))
        else cells ws (r', c'))"
proof (induction row arbitrary: ws c)
  case Nil
  then show ?case by auto
next
  case (Cons v row)
  from Cons.prems have l: "legal v" by (auto simp: cell_cases split: if_splits)
  let ?ws1 = "ws\<lparr>cells := (cells ws)((r, c) := Some (take 32767 v)),
                   max_row := max (max_row ws) r,
                   max_column := max (max_column ws) c\<rparr>"
  from Cons.prems l have "write_row ?ws1 r (Suc c) row = Inr ws'"
    by (simp add: cell_cases)
  from Cons.IH [OF this] show ?case
    by (auto simp: nth_Cons' Suc_diff_le)
qed

lemma write_rows_total:
  "\<forall>row \<in> set table. \<forall>v \<in> set row. legal v \<Longrightarrow> \<exists>ws'. write_rows ws r table = Inr ws'"
proof (induction table arbitrary: ws r)
  case Nil
  then show ?case by simp
next
  case (Cons row table)
  then obtain ws1 where "write_row ws r 1 row = Inr ws1"
    using write_row_total [of row ws r 1] by auto
  with Cons show ?case by simp
qed

lemma write_rows_legal:
  "write_rows ws r table = Inr ws' \<Longrightarrow> \<forall>row \<in> set table. \<forall>v \<in> set row. legal v"
proof (induction table arbitrary: ws r)
  case Nil
  then show ?case by simp
next
  case (Cons row table)
  from Cons.prems obtain ws1 where w: "write_row ws r 1 row = Inr ws1"
    and rest: "write_rows ws1 (Suc r) table = Inr ws'"
    by (auto split: sum.splits)
  from write_row_legal [OF w] Cons.IH [OF rest] show ?case by simp
qed

lemma write_rows_fields:
  "write_rows ws r table = Inr ws' \<Longrightarrow>
     title ws' = title ws \<and> column_dimensions ws' = column_dimensions ws"
proof (induction table arbitrary: ws r)
  case Nil
  then show ?case by simp
next
  case (Cons row table)
  from Cons.prems obtain ws1 where w: "write_row ws r 1 row = Inr ws1"
    and rest: "write_rows ws1 (Suc r) table = Inr ws'"
    by (auto split: sum.splits)
  from write_row_fields [OF w] Cons.IH [OF rest] show ?case by simp
qed

lemma write_rows_cells:
  "write_rows ws r table = Inr ws' \<Longrightarrow>
     cells ws' (r', c') =
       (if r \<le> r' \<and> r' < r + length table \<and> 1 \<le> c' \<and> c' < 1 + length (table ! (r' - r))
        then Some (take 32767 (table ! (r' - r) ! (c' - 1)))
        else cells ws (r', c'))"
proof (induction table arbitrary: ws r)
  case Nil
  then show ?case by auto
next
  case (Cons row table)
  from Cons.prems obtain ws1 where w: "write_row ws r 1 row = Inr ws1"
    and rest: "write_rows ws1 (Suc r) table = Inr ws'"
    by (auto split: sum.splits)
  show ?case
    unfolding Cons.IH [OF rest] write_row_cells [OF w]
    by (auto simp: nth_Cons' Suc_diff_le)
qed

lemma write_row_max_column:
  "write_row ws r c row = Inr ws' \<Longrightarrow>
     max_column ws' =
       (if row = [] then max_column ws else max (max_column ws) (c + length row - 1))"
proof (induction row arbitrary: ws c)
  case Nil
  then show ?case by simp
next
  case (Cons v row)
  from Cons.prems have l: "legal v" by (auto simp: cell_cases split: if_splits)
  let ?ws1 = "ws\<lparr>cells := (cells ws)((r, c) := Some (take 32767 v)),
                   max_row := max (max_row ws) r,
                   max_column := max (max_column ws) c\<rparr>"
  from Cons.prems l have "write_row ?ws1 r (Suc c) row = Inr ws'"
    by (simp add: cell_cases)
  from Cons.IH [OF this] show ?case by auto
qed

lemma Max_insert_zero:
  "finite S \<Longrightarrow> Max (insert (0::nat) (insert a S)) = max a (Max (insert 0 S))"
  by (simp add: insert_commute [of 0 a])

lemma write_rows_max_column:
  "write_rows ws r table = Inr ws' \<Longrightarrow>
     max_column ws' = max (max_column ws) (Max (insert 0 (length ` set table)))"
proof (induction table arbitrary: ws r)
  case Nil
  then show ?case by simp
next
  case (Cons row table)
  from Cons.prems obtain ws1 where w: "write_row ws r 1 row = Inr ws1"
    and rest: "write_rows ws1 (Suc r) table = Inr ws'"
    by (auto split: sum.splits)
  from write_row_max_column [OF w] have m1: "max_column ws1 = max (max_column ws) (length row)"
    by (cases row) simp_all
  have "Max (insert 0 (length ` set (row # table))) =
      max (length row) (Max (insert 0 (length ` set table)))"
    using Max_insert_zero [of "length ` set table" "length row"] by simp
  with Cons.IH [OF rest] m1 show ?case by (simp only: max.assoc)
qed

subsection \<open>Column letters and widths\<close>

lemma column_letter_Nil: "column_letter n = [] \<longleftrightarrow> n = 0"
  by (subst column_letter.simps) simp

lemma column_letter_inj: "column_letter m = column_letter n \<Longrightarrow> m = n"
proof (induction m arbitrary: n rule: column_letter.induct)
  case (1 m)
  show ?case
  proof (cases "m = 0")
    case True
    then have "column_letter m = []" by (simp only: column_letter_Nil)
    with "1.prems" have "column_letter n = []" by simp
    then have "n = 0" by (simp only: column_letter_Nil)
    with True show ?thesis by simp
  next
    case False
    with "1.prems" have n: "n \<noteq> 0"
      by (metis column_letter_Nil)
    have em: "column_letter m =
        column_letter ((m - 1) div 26) @ [char_of (65 + (m - 1) mod 26)]"
      using False by (subst column_letter.simps) simp
    have en: "column_letter n =
        column_letter ((n - 1) div 26) @ [char_of (65 + (n - 1) mod 26)]"
      using n by (subst column_letter.simps) simp
    from "1.prems" em en
    have front_eq: "column_letter ((m - 1) div 26) = column_letter ((n - 1) div 26)"
      and last_eq: "(char_of (65 + (m - 1) mod 26) :: char) = char_of (65 + (n - 1) mod 26)"
      by simp_all
    from "1.IH" [OF False front_eq] have d: "(m - 1) div 26 = (n - 1) div 26" .
    have "(65 + (m - 1) mod 26) mod 256 = (65 + (n - 1) mod 26) mod 256"
      using last_eq by (simp only: char_of_quasi_inj)
    moreover have "65 + (m - 1) mod 26 < 256" "65 + (n - 1) mod 26 < 256"
      by (simp_all add: less_trans [OF mod_less_divisor])
    ultimately have r: "(m - 1) mod 26 = (n - 1) mod 26" by simp
    have "m - 1 = n - 1"
      using d r by (metis div_mult_mod_eq)
    with False n show ?thesis by simp
  qed
qed

lemma max_length_loop_eq:
  "max_length_loop m column =
     max m (Max (insert 0 ((\<lambda>v. case v of None \<Rightarrow> 0 | Some s \<Rightarrow> length s) ` set column)))"
proof (induction m column rule: max_length_loop.induct)
  case (1 max_length)
  then show ?case by simp
next
  case (2 max_length column)
  then show ?case by simp
next
  case (3 max_length v column)
  let ?S = "(\<lambda>v. case v of None \<Rightarrow> 0 | Some s \<Rightarrow> length s) ` set column"
  have fin: "finite (insert 0 ?S)" by simp
  have ins: "Max (insert (length v) (insert 0 ?S)) = max (length v) (Max (insert 0 ?S))"
    by (rule Max_insert) (simp_all)
  show ?case
  proof (cases "v = []")
    case True
    with 3 show ?thesis by (simp add: insert_absorb)
  next
    case False
    let ?f = "\<lambda>v. case v of None \<Rightarrow> 0 | Some s \<Rightarrow> length s"
    have sets: "insert 0 (?f ` set (Some v # column)) = insert (length v) (insert 0 ?S)"
      by (simp add: insert_commute)
    have "max_length_loop max_length (Some v # column) =
        max_length_loop (max max_length (length v)) column"
      using False by simp
    also have "\<dots> = max (max max_length (length v)) (Max (insert 0 ?S))"
      using "3.IH"(1) [OF False] .
    also have "\<dots> = max max_length (Max (insert (length v) (insert 0 ?S)))"
      by (simp only: ins max.assoc)
    finally show ?thesis by (simp only: sets)
  qed
qed

lemma adjust_widths_Cons:
  "adjust_widths ws ((c, column) # cols) =
     (if 1 \<le> c \<and> c \<le> 18278
      then adjust_widths
             (ws\<lparr>column_dimensions :=
                   (column_dimensions ws)
                     (column_letter c := Some (min (max_length_loop 0 column + 2) 50))\<rparr>)
             cols
      else Inl (Exception (''Invalid column index '' @ str_nat c)))"
  by (simp add: get_column_letter_def Let_def)

lemma adjust_widths_fields:
  "adjust_widths ws cols = Inr ws' \<Longrightarrow>
     title ws' = title ws \<and> cells ws' = cells ws \<and>
     max_row ws' = max_row ws \<and> max_column ws' = max_column ws"
proof (induction cols arbitrary: ws)
  case Nil
  then show ?case by simp
next
  case (Cons a cols)
  obtain c column where a: "a = (c, column)" by (cases a)
  from Cons.prems have "adjust_widths
      (ws\<lparr>column_dimensions :=
            (column_dimensions ws)
              (column_letter c := Some (min (max_length_loop 0 column + 2) 50))\<rparr>) cols = Inr ws'"
    unfolding a adjust_widths_Cons by (simp split: if_splits)
  from Cons.IH [OF this] show ?case by simp
qed

lemma adjust_widths_Inr_iff:
  "(\<exists>ws'. adjust_widths ws cols = Inr ws') \<longleftrightarrow> (\<forall>c \<in> fst ` set cols. 1 \<le> c \<and> c \<le> 18278)"
proof (induction cols arbitrary: ws)
  case Nil
  then show ?case by simp
next
  case (Cons a cols)
  obtain c column where a: "a = (c, column)" by (cases a)
  show ?case
    unfolding a adjust_widths_Cons by (auto simp: Cons.IH)
qed

lemma adjust_widths_other:
  "adjust_widths ws cols = Inr ws' \<Longrightarrow>
   letter \<notin> (\<lambda>(c, column). column_letter c) ` set cols \<Longrightarrow>
     column_dimensions ws' letter = column_dimensions ws letter"
proof (induction cols arbitrary: ws)
  case Nil
  then show ?case by simp
next
  case (Cons a cols)
  obtain c column where a: "a = (c, column)" by (cases a)
  from Cons.prems(1) have "adjust_widths
      (ws\<lparr>column_dimensions :=
            (column_dimensions ws)
              (column_letter c := Some (min (max_length_loop 0 column + 2) 50))\<rparr>) cols = Inr ws'"
    unfolding a adjust_widths_Cons by (simp split: if_splits)
  from Cons.IH [OF this] Cons.prems(2) show ?case by (simp add: a)
qed

lemma adjust_widths_dimensions:
  assumes "adjust_widths ws cols = Inr ws'"
    and "distinct (map fst cols)" and "(c, column) \<in> set cols"
  shows "column_dimensions ws' (column_letter c) =
           Some (min (max_length_loop 0 column + 2) 50)"
  using assms
proof (induction cols arbitrary: ws)
  case Nil
  then show ?case by simp
next
  case (Cons a cols)
  obtain c' column' where a: "a = (c', column')" by (cases a)
  let ?ws1 = "ws\<lparr>column_dimensions :=
            (column_dimensions ws)
              (column_letter c' := Some (min (max_length_loop 0 column' + 2) 50))\<rparr>"
  from Cons.prems(1) have rest: "adjust_widths ?ws1 cols = Inr ws'"
    unfolding a adjust_widths_Cons by (simp split: if_splits)
  show ?case
  proof (cases "(c, column) \<in> set cols")
    case True
    from Cons.prems(2) have "distinct (map fst cols)" by simp
    from Cons.IH [OF rest this True] show ?thesis .
  next
    case False
    with Cons.prems(3) a have same: "c' = c" "column' = column" by auto
    from Cons.prems(2) a same have "c \<notin> fst ` set cols" by simp
    then have "column_letter c \<notin> (\<lambda>(c, column). column_letter c) ` set cols"
    proof (rule contrapos_nn)
      assume "column_letter c \<in> (\<lambda>(c, column). column_letter c) ` set cols"
      then obtain x y where xy: "(x, y) \<in> set cols" and "column_letter c = column_letter x"
        by auto
      then have "c = x" by (simp add: column_letter_inj)
      with xy show "c \<in> fst ` set cols" by force
    qed
    from adjust_widths_other [OF rest this] same show ?thesis by simp
  qed
qed

lemma columns_member:
  "1 \<le> c \<Longrightarrow> c \<le> max_column ws \<Longrightarrow>
     (c, map (\<lambda>r. cells ws (r, c)) [1..<Suc (max_row ws)]) \<in> set (columns ws)"
  unfolding columns_def set_map
  by (rule image_eqI [where x = c]) (simp_all del: upt_Suc)

lemma columns_distinct: "distinct (map fst (columns ws))"
  by (simp add: columns_def comp_def del: upt_Suc)

lemma columns_indices: "fst ` set (columns ws) = {1..max_column ws}"
  by (auto simp: columns_def image_iff simp del: upt_Suc)

lemma adjust_columns_Inr_iff:
  "(\<exists>ws'. adjust_widths ws (columns ws) = Inr ws') \<longleftrightarrow> max_column ws \<le> 18278"
  unfolding adjust_widths_Inr_iff columns_indices by auto

lemma adjusted_sheet_widths:
  assumes "adjust_widths ws (columns ws) = Inr ws'" and "1 \<le> c" and "c \<le> max_column ws"
  shows "column_dimensions ws' (column_letter c) = Some (min (column_max_length ws' c + 2) 50)"
proof -
  let ?column = "map (\<lambda>r. cells ws (r, c)) [1..<Suc (max_row ws)]"
  note f = adjust_widths_fields [OF assms(1)]
  have "set [1..<Suc (max_row ws)] = {1..max_row ws}" by auto
  then have "(\<lambda>v. case v of None \<Rightarrow> 0 | Some s \<Rightarrow> length s) ` set ?column =
      (\<lambda>r. case cells ws (r, c) of None \<Rightarrow> 0 | Some v \<Rightarrow> length v) ` {1..max_row ws}"
    by (simp only: set_map image_image)
  then have "max_length_loop 0 ?column = column_max_length ws' c"
    by (simp only: max_length_loop_eq column_max_length_def f)
  with adjust_widths_dimensions [OF assms(1) columns_distinct columns_member [OF assms(2,3)]]
  show ?thesis by simp
qed

subsection \<open>The sheet of one table\<close>

lemma table_sheet_Inr_iff:
  "(\<exists>ws. table_sheet idx table = Inr ws) \<longleftrightarrow>
     (\<forall>row \<in> set table. length row \<le> 18278 \<and> (\<forall>v \<in> set row. legal v))"
proof
  assume "\<exists>ws. table_sheet idx table = Inr ws"
  then obtain ws0 ws
    where w: "write_rows (new_sheet (''Table_'' @ str_nat idx)) 1 table = Inr ws0"
      and a: "adjust_widths ws0 (columns ws0) = Inr ws"
    by (auto simp: table_sheet_def split: sum.splits)
  from a have "max_column ws0 \<le> 18278"
    using adjust_columns_Inr_iff [of ws0] by blast
  with write_rows_max_column [OF w] have "Max (insert 0 (length ` set table)) \<le> 18278"
    by simp
  then have "\<forall>row \<in> set table. length row \<le> 18278" by simp
  with write_rows_legal [OF w]
  show "\<forall>row \<in> set table. length row \<le> 18278 \<and> (\<forall>v \<in> set row. legal v)" by blast
next
  assume ok: "\<forall>row \<in> set table. length row \<le> 18278 \<and> (\<forall>v \<in> set row. legal v)"
  then have "\<forall>row \<in> set table. \<forall>v \<in> set row. legal v" by blast
  from write_rows_total [OF this]
  obtain ws0 where w: "write_rows (new_sheet (''Table_'' @ str_nat idx)) 1 table = Inr ws0"
    by blast
  from ok have "Max (insert 0 (length ` set table)) \<le> 18278" by simp
  with write_rows_max_column [OF w] have "max_column ws0 \<le> 18278"
    by (simp add: new_sheet_def)
  then obtain ws where "adjust_widths ws0 (columns ws0) = Inr ws"
    using adjust_columns_Inr_iff [of ws0] by blast
  then show "\<exists>ws. table_sheet idx table = Inr ws" unfolding table_sheet_def w by simp
qed

lemma table_sheet_parts:
  assumes "table_sheet idx table = Inr ws"
  obtains ws0 where "write_rows (new_sheet (''Table_'' @ str_nat idx)) 1 table = Inr ws0"
    and "adjust_widths ws0 (columns ws0) = Inr ws"
  using assms by (auto simp: table_sheet_def split: sum.splits)

lemma table_sheet_title:
  assumes "table_sheet idx table = Inr ws"
  shows "title ws = ''Table_'' @ str_nat idx"
proof -
  from assms obtain ws0
    where w: "write_rows (new_sheet (''Table_'' @ str_nat idx)) 1 table = Inr ws0"
      and a: "adjust_widths ws0 (columns ws0) = Inr ws"
    by (rule table_sheet_parts)
  from write_rows_fields [OF w] adjust_widths_fields [OF a] show ?thesis
    by (simp add: new_sheet_def)
qed

lemma table_sheet_cells:
  assumes "table_sheet idx table = Inr ws"
  shows "cells ws (r, c) =
     (if 1 \<le> r \<and> r < 1 + length table \<and> 1 \<le> c \<and> c < 1 + length (table ! (r - 1))
      then Some (take 32767 (table ! (r - 1) ! (c - 1))) else None)"
proof -
  from assms obtain ws0
    where w: "write_rows (new_sheet (''Table_'' @ str_nat idx)) 1 table = Inr ws0"
      and a: "adjust_widths ws0 (columns ws0) = Inr ws"
    by (rule table_sheet_parts)
  from adjust_widths_fields [OF a] have "cells ws = cells ws0" by simp
  then show ?thesis
    by (simp add: write_rows_cells [OF w] new_sheet_def)
qed

lemma table_sheet_widths:
  assumes "table_sheet idx table = Inr ws" and "1 \<le> c" and "c \<le> max_column ws"
  shows "column_dimensions ws (column_letter c) = Some (min (column_max_length ws c + 2) 50)"
proof -
  from assms(1) obtain ws0 where a: "adjust_widths ws0 (columns ws0) = Inr ws"
    by (rule table_sheet_parts)
  from assms(3) adjust_widths_fields [OF a] have "c \<le> max_column ws0" by simp
  from adjusted_sheet_widths [OF a assms(2) this] show ?thesis .
qed

subsection \<open>The loop over the tables\<close>

lemma add_tables_Cons:
  "add_tables wb idx (t # tables) =
     (case table_sheet idx t of
        Inl e \<Rightarrow> Inl e
      | Inr ws \<Rightarrow> add_tables (wb\<lparr>worksheets := worksheets wb @ [ws]\<rparr>) (Suc idx) tables)"
  by (simp add: table_sheet_def Let_def split: sum.splits)

lemma add_tables_Inr:
  "add_tables wb idx tables = Inr wb' \<Longrightarrow>
     \<exists>sheets. worksheets wb' = worksheets wb @ sheets \<and>
       map Inr sheets = map (\<lambda>(i, t). table_sheet i t) (zip [idx..<idx + length tables] tables)"
proof (induction tables arbitrary: wb idx)
  case Nil
  then show ?case by auto
next
  case (Cons t tables)
  have up: "[idx..<idx + length (t # tables)] = idx # [Suc idx..<Suc idx + length tables]"
    by (simp add: upt_rec)
  from Cons.prems obtain ws
    where ts: "table_sheet idx t = Inr ws"
      and rest: "add_tables (wb\<lparr>worksheets := worksheets wb @ [ws]\<rparr>) (Suc idx) tables = Inr wb'"
    unfolding add_tables_Cons by (auto split: sum.splits)
  from Cons.IH [OF rest] obtain sheets
    where s: "worksheets wb' = (worksheets wb @ [ws]) @ sheets"
      and m: "map Inr sheets =
        map (\<lambda>(i, t). table_sheet i t) (zip [Suc idx..<Suc idx + length tables] tables)"
    by auto
  from s m ts have "worksheets wb' = worksheets wb @ (ws # sheets) \<and>
      map Inr (ws # sheets) =
        map (\<lambda>(i, t). table_sheet i t) (zip (idx # [Suc idx..<Suc idx + length tables]) (t # tables))"
    by simp
  then show ?case unfolding up by blast
qed

lemma add_tables_total:
  "accepted tables \<Longrightarrow> \<exists>wb'. add_tables wb idx tables = Inr wb'"
proof (induction tables arbitrary: wb idx)
  case Nil
  then show ?case by simp
next
  case (Cons t tables)
  from Cons.prems have "\<forall>row \<in> set t. length row \<le> 18278 \<and> (\<forall>v \<in> set row. legal v)"
    and acc: "accepted tables"
    by (simp_all add: accepted_def)
  then obtain ws where ts: "table_sheet idx t = Inr ws"
    using table_sheet_Inr_iff [of idx t] by blast
  from Cons.IH [OF acc] show ?case
    unfolding add_tables_Cons ts by simp
qed

lemma build_workbook_empty: "build_workbook [] = Inr Workbook"
  by (simp add: build_workbook_def)

lemma build_workbook_total: "accepted tables \<Longrightarrow> \<exists>wb. build_workbook tables = Inr wb"
  unfolding build_workbook_def by (rule add_tables_total)

lemma build_workbook_sheets:
  assumes "tables \<noteq> []" and "build_workbook tables = Inr wb"
  shows "map Inr (worksheets wb) =
           map (\<lambda>(i, t). table_sheet i t) (zip [1..<1 + length tables] tables)"
proof -
  from assms have "add_tables (remove_active Workbook) 1 tables = Inr wb"
    by (simp add: build_workbook_def)
  from add_tables_Inr [OF this] show ?thesis
    by (auto simp: remove_active_def Workbook_def)
qed

lemma build_workbook_length:
  assumes "tables \<noteq> []" and "build_workbook tables = Inr wb"
  shows "length (worksheets wb) = length tables"
proof -
  have "length (map Inr (worksheets wb) :: (exn + worksheet) list) = length tables"
    unfolding build_workbook_sheets [OF assms] by (simp del: upt_Suc)
  then show ?thesis by simp
qed

lemma build_workbook_nth:
  assumes "build_workbook tables = Inr wb" and "i < length tables"
  shows "table_sheet (i + 1) (tables ! i) = Inr (worksheets wb ! i)"
proof -
  from assms(2) have ne: "tables \<noteq> []" by auto
  have len: "length (worksheets wb) = length tables"
    by (rule build_workbook_length [OF ne assms(1)])
  have "(map Inr (worksheets wb) :: (exn + worksheet) list) ! i =
      map (\<lambda>(i, t). table_sheet i t) (zip [1..<1 + length tables] tables) ! i"
    unfolding build_workbook_sheets [OF ne assms(1)] ..
  moreover from assms(2) have "[1..<1 + length tables] ! i = i + 1"
    by (simp del: upt_Suc)
  ultimately show ?thesis
    using assms(2) len by (simp del: upt_Suc)
qed


lemma create_excel_mock:
  assumes "accepted tables"
  shows "create_excel_from_tables mock_env tables = Inr ''PK''"
proof -
  from build_workbook_total [OF assms] obtain wb where "build_workbook tables = Inr wb" ..
  then show ?thesis by (simp add: create_excel_from_tables_def mock_env_def)
qed

section \<open>Properties of the event handler\<close>

lemmas mock_simps =
  mock_env_def mock_store_def decoded_key_def skipped_def pdf_spellings_def
  unquote_plus_def replace_plus_def startswith_def endswith_def lower_def lower_char_def
  suffix_to_prefix

text \<open>
  C1. An event whose record list is absent or empty is answered at once with status 400
  and a body that is the JSON object with the one member \<^verbatim>\<open>message\<close>, whose value is
  \<^verbatim>\<open>No records found in event\<close>; the world is unchanged and no call (storage read,
  document opening, storage write) is made.
\<close>

theorem no_records_returns_400:
  "lambda_handler env None w = (create_response 400 ''No records found in event'', w, []) \<and>
   lambda_handler env (Some []) w = (create_response 400 ''No records found in event'', w, []) \<and>
   statusCode (create_response 400 ''No records found in event'') = 400 \<and>
   statusCode (fst (lambda_handler env None w)) = 400 \<and>
   statusCode (fst (lambda_handler env (Some []) w)) = 400 \<and>
   body (fst (lambda_handler env None w)) =
     ''{'' @ [CHR 0x22] @ ''message'' @ [CHR 0x22] @ '': '' @ [CHR 0x22] @ ''No records found in event'' @ [CHR 0x22] @ ''}'' \<and>
   body (fst (lambda_handler env (Some []) w)) =
     ''{'' @ [CHR 0x22] @ ''message'' @ [CHR 0x22] @ '': '' @ [CHR 0x22] @ ''No records found in event'' @ [CHR 0x22] @ ''}'' \<and>
   snd (lambda_handler env None w) = (w, []) \<and>
   snd (lambda_handler env (Some []) w) = (w, [])"
  by (simp add: lambda_handler_def create_response_def json_dumps_message_def json_string_def
      json_escape_char_def)

text \<open>
  C2. A record whose decoded key does not start with the input folder followed by a
  slash, or does not end in \<^verbatim>\<open>.pdf\<close> in either case, is passed over: taking it out of
  the batch changes neither the result, nor the world, nor the calls, and no storage
  read of its key is ever made. When a non-empty batch consists of such records only,
  the answer has status 200 and the body with the message of success, and nothing was
  called.
\<close>

theorem skipped_records_are_never_read:
  "(skipped env r \<longrightarrow>
      records_loop env (xs @ r # ys) w = records_loop env (xs @ ys) w \<and>
      snd (lambda_handler env (Some (xs @ r # ys)) w) = snd (lambda_handler env (Some (xs @ ys)) w) \<and>
      (\<forall>b. GetObject b (decoded_key env r) \<notin> set (snd (snd (lambda_handler env (Some rs) w))))) \<and>
   (rs \<noteq> [] \<and> (\<forall>r' \<in> set rs. skipped env r') \<longrightarrow>
      lambda_handler env (Some rs) w =
        (create_response 200 ''PDF processing completed successfully'', w, []) \<and>
      statusCode (fst (lambda_handler env (Some rs) w)) = 200 \<and>
      body (fst (lambda_handler env (Some rs) w)) =
        ''{'' @ [CHR 0x22] @ ''message'' @ [CHR 0x22] @ '': '' @ [CHR 0x22] @ ''PDF processing completed successfully'' @ [CHR 0x22] @ ''}'' \<and>
      snd (lambda_handler env (Some rs) w) = (w, []))"
proof (intro conjI impI allI)
  assume s: "skipped env r"
  show eq: "records_loop env (xs @ r # ys) w = records_loop env (xs @ ys) w"
    by (simp add: records_loop_append [of env xs] records_loop_skip [OF s] del: records_loop.simps
        split: prod.splits sum.splits)
  show "snd (lambda_handler env (Some (xs @ r # ys)) w) = snd (lambda_handler env (Some (xs @ ys)) w)"
    using eq lambda_handler_calls [of env "xs @ r # ys" w] lambda_handler_calls [of env "xs @ ys" w]
      lambda_handler_world [of env "xs @ r # ys" w] lambda_handler_world [of env "xs @ ys" w]
    by (simp add: prod_eq_iff)
  fix b
  show "GetObject b (decoded_key env r) \<notin> set (snd (snd (lambda_handler env (Some rs) w)))"
    using records_loop_reads_qualify [of b "decoded_key env r" env rs w] s
    by (auto simp: lambda_handler_calls skipped_def)
next
  assume "rs \<noteq> [] \<and> (\<forall>r' \<in> set rs. skipped env r')"
  then show h: "lambda_handler env (Some rs) w =
        (create_response 200 ''PDF processing completed successfully'', w, [])"
    by (simp add: lambda_handler_def records_loop_all_skipped)
  show "statusCode (fst (lambda_handler env (Some rs) w)) = 200"
    unfolding h by (simp add: create_response_def)
  show "body (fst (lambda_handler env (Some rs) w)) =
        ''{'' @ [CHR 0x22] @ ''message'' @ [CHR 0x22] @ '': '' @ [CHR 0x22] @ ''PDF processing completed successfully'' @ [CHR 0x22] @ ''}''"
    unfolding h
    by (simp add: create_response_def json_dumps_message_def json_string_def json_escape_char_def)
  show "snd (lambda_handler env (Some rs) w) = (w, [])"
    unfolding h by simp
qed

theorem skipped_records_are_never_read_witness:
  "skipped mock_env \<lparr>bucket_name = ''b'', object_key = ''other-folder/document.pdf''\<rparr> \<and>
   skipped mock_env \<lparr>bucket_name = ''b'', object_key = ''input-pdf-files/document.txt''\<rparr> \<and>
   lambda_handler mock_env
     (Some [\<lparr>bucket_name = ''b'', object_key = ''other-folder/document.pdf''\<rparr>,
            \<lparr>bucket_name = ''b'', object_key = ''input-pdf-files/document.txt''\<rparr>]) mock_store =
     (create_response 200 ''PDF processing completed successfully'', mock_store, []) \<and>
   statusCode (fst (lambda_handler mock_env
     (Some [\<lparr>bucket_name = ''b'', object_key = ''other-folder/document.pdf''\<rparr>,
            \<lparr>bucket_name = ''b'', object_key = ''input-pdf-files/document.txt''\<rparr>]) mock_store)) =
     200"
proof -
  let ?r1 = "\<lparr>bucket_name = ''b'', object_key = ''other-folder/document.pdf''\<rparr>"
  let ?r2 = "\<lparr>bucket_name = ''b'', object_key = ''input-pdf-files/document.txt''\<rparr>"
  have s1: "skipped mock_env ?r1" by (simp add: mock_simps)
  have s2: "skipped mock_env ?r2" by (simp add: mock_simps)
  from s1 s2
    skipped_records_are_never_read [where env = mock_env and rs = "[?r1, ?r2]" and w = mock_store]
  show ?thesis by (simp add: create_response_def)
qed

text \<open>
  C7. When the conversion of a record raises, the records after it are not processed:
  the handler answers with status 500, the world and the calls are those up to the
  failure, and the message in the body is \<^verbatim>\<open>AWS Error: \<close> followed by the details for
  a client error of the storage layer, \<^verbatim>\<open>Error: \<close> followed by the details for any
  other exception (the details with the escapes of JSON).
\<close>

theorem exception_aborts_batch:
  assumes "records_loop env pre w = (Inr (), w1, tr1)"
    and "key = unquote_plus (unquote env) (object_key r)"
    and "startswith key (INPUT_FOLDER_NAME env @ ''/'')"
    and "endswith (lower key) ''.pdf''"
    and "process_pdf env (bucket_name r) key w1 = (Inl e, w2, tr2)"
  shows "lambda_handler env (Some (pre @ r # post)) w =
           (create_response 500
              (case e of ClientError msg \<Rightarrow> ''AWS Error: '' @ msg
                       | Exception msg \<Rightarrow> ''Error: '' @ msg),
            w2, tr1 @ tr2) \<and>
         statusCode (fst (lambda_handler env (Some (pre @ r # post)) w)) = 500 \<and>
         body (fst (lambda_handler env (Some (pre @ r # post)) w)) =
           ''{'' @ [CHR 0x22] @ ''message'' @ [CHR 0x22] @ '': '' @ [CHR 0x22] @
           (case e of
              ClientError msg \<Rightarrow> ''AWS Error: '' @ concat (map json_escape_char msg)
            | Exception msg \<Rightarrow> ''Error: '' @ concat (map json_escape_char msg)) @
           [CHR 0x22] @ ''}'' \<and>
         snd (lambda_handler env (Some (pre @ r # post)) w) = (w2, tr1 @ tr2)"
proof -
  have "records_loop env (r # post) w1 = (Inl e, w2, tr2)"
    using assms(2-5) by (simp add: Let_def)
  then have "records_loop env (pre @ r # post) w = (Inl e, w2, tr1 @ tr2)"
    using assms(1) by (simp add: records_loop_append [of env pre])
  then have h: "lambda_handler env (Some (pre @ r # post)) w =
           (create_response 500
              (case e of ClientError msg \<Rightarrow> ''AWS Error: '' @ msg
                       | Exception msg \<Rightarrow> ''Error: '' @ msg),
            w2, tr1 @ tr2)"
    by (cases e) (simp_all add: lambda_handler_def)
  have "statusCode (fst (lambda_handler env (Some (pre @ r # post)) w)) = 500"
    unfolding h by (simp add: create_response_def)
  moreover have "body (fst (lambda_handler env (Some (pre @ r # post)) w)) =
           ''{'' @ [CHR 0x22] @ ''message'' @ [CHR 0x22] @ '': '' @ [CHR 0x22] @
           (case e of
              ClientError msg \<Rightarrow> ''AWS Error: '' @ concat (map json_escape_char msg)
            | Exception msg \<Rightarrow> ''Error: '' @ concat (map json_escape_char msg)) @
           [CHR 0x22] @ ''}''"
    unfolding h
    by (cases e)
      (simp_all add: create_response_def json_dumps_message_def json_string_def
        json_escape_char_def)
  moreover have "snd (lambda_handler env (Some (pre @ r # post)) w) = (w2, tr1 @ tr2)"
    unfolding h by simp
  ultimately show ?thesis using h by simp
qed

theorem exception_aborts_batch_witness:
  "lambda_handler mock_env
     (Some [\<lparr>bucket_name = ''b'', object_key = ''notes.txt''\<rparr>,
            \<lparr>bucket_name = ''b'', object_key = ''input-pdf-files/missing.pdf''\<rparr>,
            \<lparr>bucket_name = ''b'', object_key = ''input-pdf-files/my+report.pdf''\<rparr>]) mock_store =
     (\<lparr>statusCode = 500,
        body = ''{'' @ [CHR 0x22] @ ''message'' @ [CHR 0x22] @ '': '' @ [CHR 0x22] @ ''AWS Error: NoSuchKey'' @ [CHR 0x22] @ ''}''\<rparr>,
      mock_store, [GetObject ''b'' ''input-pdf-files/missing.pdf'']) \<and>
   lambda_handler mock_env
     (Some [\<lparr>bucket_name = ''b'', object_key = ''input-pdf-files/broken.pdf''\<rparr>,
            \<lparr>bucket_name = ''b'', object_key = ''input-pdf-files/my+report.pdf''\<rparr>]) mock_store =
     (\<lparr>statusCode = 500,
        body = ''{'' @ [CHR 0x22] @ ''message'' @ [CHR 0x22] @ '': '' @ [CHR 0x22] @ ''Error: not a PDF'' @ [CHR 0x22] @ ''}''\<rparr>,
      mock_store, [GetObject ''b'' ''input-pdf-files/broken.pdf'', PdfOpen ''garbage''])"
proof -
  let ?r1 = "\<lparr>bucket_name = ''b'', object_key = ''notes.txt''\<rparr>"
  let ?r2 = "\<lparr>bucket_name = ''b'', object_key = ''input-pdf-files/missing.pdf''\<rparr>"
  let ?r3 = "\<lparr>bucket_name = ''b'', object_key = ''input-pdf-files/my+report.pdf''\<rparr>"
  let ?r4 = "\<lparr>bucket_name = ''b'', object_key = ''input-pdf-files/broken.pdf''\<rparr>"
  have 1: "records_loop mock_env [?r1] mock_store = (Inr (), mock_store, [])"
    by (simp add: mock_simps)
  have 2: "''input-pdf-files/missing.pdf'' = unquote_plus (unquote mock_env) (object_key ?r2)"
    by (simp add: mock_simps)
  have 3: "startswith ''input-pdf-files/missing.pdf'' (INPUT_FOLDER_NAME mock_env @ ''/'')"
    by (simp add: mock_simps)
  have 4: "endswith (lower ''input-pdf-files/missing.pdf'') ''.pdf''"
    by (simp add: mock_simps)
  have 5: "process_pdf mock_env (bucket_name ?r2) ''input-pdf-files/missing.pdf'' mock_store =
      (Inl (ClientError ''NoSuchKey''), mock_store, [GetObject ''b'' ''input-pdf-files/missing.pdf''])"
    by (simp add: process_pdf_def mock_simps)
  have 6: "records_loop mock_env [] mock_store = (Inr (), mock_store, [])"
    by simp
  have 7: "''input-pdf-files/broken.pdf'' = unquote_plus (unquote mock_env) (object_key ?r4)"
    by (simp add: mock_simps)
  have 8: "startswith ''input-pdf-files/broken.pdf'' (INPUT_FOLDER_NAME mock_env @ ''/'')"
    by (simp add: mock_simps)
  have 9: "endswith (lower ''input-pdf-files/broken.pdf'') ''.pdf''"
    by (simp add: mock_simps)
  have 10: "process_pdf mock_env (bucket_name ?r4) ''input-pdf-files/broken.pdf'' mock_store =
      (Inl (Exception ''not a PDF''), mock_store,
       [GetObject ''b'' ''input-pdf-files/broken.pdf'', PdfOpen ''garbage''])"
    by (simp add: process_pdf_def extract_tables_from_pdf_def mock_simps)
  let ?X = "lambda_handler mock_env (Some [?r1, ?r2, ?r3]) mock_store"
  let ?Y = "lambda_handler mock_env (Some [?r4, ?r3]) mock_store"
  note x = exception_aborts_batch [OF 1 2 3 4 5, of "[?r3]"]
  note y = exception_aborts_batch [OF 6 7 8 9 10, of "[?r3]"]
  have xs: "statusCode (fst ?X) = 500"
    using x [THEN conjunct2, THEN conjunct1] by simp
  have xb: "body (fst ?X) = ''{'' @ [CHR 0x22] @ ''message'' @ [CHR 0x22] @ '': '' @ [CHR 0x22] @ ''AWS Error: NoSuchKey'' @ [CHR 0x22] @ ''}''"
    using x [THEN conjunct2, THEN conjunct2, THEN conjunct1] by (simp add: json_escape_char_def)
  have xr: "snd ?X = (mock_store, [GetObject ''b'' ''input-pdf-files/missing.pdf''])"
    using x [THEN conjunct2, THEN conjunct2, THEN conjunct2] by simp
  have ys: "statusCode (fst ?Y) = 500"
    using y [THEN conjunct2, THEN conjunct1] by simp
  have yb: "body (fst ?Y) = ''{'' @ [CHR 0x22] @ ''message'' @ [CHR 0x22] @ '': '' @ [CHR 0x22] @ ''Error: not a PDF'' @ [CHR 0x22] @ ''}''"
    using y [THEN conjunct2, THEN conjunct2, THEN conjunct1] by (simp add: json_escape_char_def)
  have yr: "snd ?Y =
      (mock_store, [GetObject ''b'' ''input-pdf-files/broken.pdf'', PdfOpen ''garbage''])"
    using y [THEN conjunct2, THEN conjunct2, THEN conjunct2] by simp
  have a: "fst ?X = \<lparr>statusCode = 500, body = ''{'' @ [CHR 0x22] @ ''message'' @ [CHR 0x22] @ '': '' @ [CHR 0x22] @ ''AWS Error: NoSuchKey'' @ [CHR 0x22] @ ''}''\<rparr>"
    using xs xb by (cases "fst ?X") simp
  have b: "fst ?Y = \<lparr>statusCode = 500, body = ''{'' @ [CHR 0x22] @ ''message'' @ [CHR 0x22] @ '': '' @ [CHR 0x22] @ ''Error: not a PDF'' @ [CHR 0x22] @ ''}''\<rparr>"
    using ys yb by (cases "fst ?Y") simp
  from a xr b yr show ?thesis by (simp add: prod_eq_iff)
qed

text \<open>
  C10. The key of a record is decoded with every plus sign turned into a space before
  the percent-decoding. The key so decoded is the one the two filters test, the one
  read from storage, and the one the output key is derived from.
\<close>

theorem object_key_is_plus_decoded:
  "(let key = unquote env (map (\<lambda>c. if c = CHR ''+'' then CHR '' '' else c) (object_key r))
    in if prefix (INPUT_FOLDER_NAME env @ ''/'') key \<and> (\<exists>ext \<in> set pdf_spellings. suffix ext key)
       then (\<exists>rest. snd (snd (lambda_handler env (Some (r # rs)) w)) =
                      GetObject (bucket_name r) key # rest) \<and>
            (\<forall>b k content ct.
                PutObject b k content ct \<in> set (snd (snd (lambda_handler env (Some [r]) w))) \<longrightarrow>
                b = bucket_name r \<and> k = output_key env key)
       else records_loop env (r # rs) w = records_loop env rs w \<and>
            snd (snd (lambda_handler env (Some [r]) w)) = [])"
proof -
  let ?key = "unquote env (map (\<lambda>c. if c = CHR ''+'' then CHR '' '' else c) (object_key r))"
  let ?q = "prefix (INPUT_FOLDER_NAME env @ ''/'') (decoded_key env r) \<and>
            (\<exists>ext \<in> set pdf_spellings. suffix ext (decoded_key env r))"
  have key: "?key = decoded_key env r"
    by (simp add: decoded_key_def replace_plus_def)
  show ?thesis
  proof (cases "skipped env r")
    case True
    then have nq: "\<not> ?q" by (auto simp: skipped_def)
    from True have "records_loop env (r # rs) w = records_loop env rs w"
      and "records_loop env [r] w = (Inr (), w, [])"
      by (simp_all add: records_loop_skip del: records_loop.simps(2))
    then have "records_loop env (r # rs) w = records_loop env rs w \<and>
            snd (snd (lambda_handler env (Some [r]) w)) = []"
      by (simp add: lambda_handler_calls del: records_loop.simps)
    then show ?thesis
      unfolding Let_def key if_not_P [OF nq] .
  next
    case False
    then have q: "?q" by (auto simp: skipped_def)
    obtain res w1 tr where p: "process_pdf env (bucket_name r) (decoded_key env r) w = (res, w1, tr)"
      by (cases "process_pdf env (bucket_name r) (decoded_key env r) w") auto
    from process_pdf_first_call [of env "bucket_name r" "decoded_key env r" w] p
    obtain rest where tr: "tr = GetObject (bucket_name r) (decoded_key env r) # rest" by auto
    have calls: "\<And>c. c \<in> set tr \<Longrightarrow>
        c = GetObject (bucket_name r) (decoded_key env r) \<or> (\<exists>content. c = PdfOpen content) \<or>
        (\<exists>content. c = PutObject (bucket_name r) (output_key env (decoded_key env r)) content
            xlsx_content_type)"
      using process_pdf_calls [of _ env "bucket_name r" "decoded_key env r" w] p by simp
    have one: "snd (snd (records_loop env [r] w)) = tr"
      using p by (cases res) (simp_all add: records_loop_convert [OF False] del: records_loop.simps(2))
    have first: "\<exists>rest'. snd (snd (records_loop env (r # rs) w)) =
        GetObject (bucket_name r) (decoded_key env r) # rest'"
      using p tr
      by (cases res)
        (auto simp add: records_loop_convert [OF False] simp del: records_loop.simps(2)
          split: prod.splits)
    have put: "\<And>b k content ct. PutObject b k content ct \<in> set tr \<Longrightarrow>
        b = bucket_name r \<and> k = output_key env (decoded_key env r)"
      using calls by blast
    have "(\<exists>rest. snd (snd (lambda_handler env (Some (r # rs)) w)) =
                      GetObject (bucket_name r) (decoded_key env r) # rest) \<and>
            (\<forall>b k content ct.
                PutObject b k content ct \<in> set (snd (snd (lambda_handler env (Some [r]) w))) \<longrightarrow>
                b = bucket_name r \<and> k = output_key env (decoded_key env r))"
      using first put one by (simp add: lambda_handler_calls del: records_loop.simps)
    then show ?thesis
      unfolding Let_def key if_P [OF q] .
  qed
qed

theorem object_key_is_plus_decoded_witness:
  "snd (snd (lambda_handler mock_env
     (Some [\<lparr>bucket_name = ''b'', object_key = ''input-pdf-files/my+report.pdf''\<rparr>]) mock_store)) =
     [GetObject ''b'' ''input-pdf-files/my report.pdf'', PdfOpen ''one table'',
      PutObject ''b'' ''output-files/my report.xlsx'' ''PK'' xlsx_content_type]"
proof -
  let ?r = "\<lparr>bucket_name = ''b'', object_key = ''input-pdf-files/my+report.pdf''\<rparr>"
  have "fst (splitext (basename ''input-pdf-files/my report.pdf'')) = ''my report''"
    by code_simp
  then have ok: "output_key mock_env ''input-pdf-files/my report.pdf'' = ''output-files/my report.xlsx''"
    by (simp add: output_key_def mock_env_def)
  have xl: "create_excel_from_tables mock_env [[[''a'', []]]] = Inr ''PK''"
    by (rule create_excel_mock) (simp add: accepted_def legal_def illegal_character_def)
  have "snd (snd (records_loop mock_env [?r] mock_store)) =
     [GetObject ''b'' ''input-pdf-files/my report.pdf'', PdfOpen ''one table'',
      PutObject ''b'' ''output-files/my report.xlsx'' ''PK'' xlsx_content_type]"
    by (simp add: mock_simps process_pdf_def extract_tables_from_pdf_def
        xl [unfolded mock_env_def] ok [unfolded mock_env_def] Let_def)
  with object_key_is_plus_decoded [of mock_env ?r "[]" mock_store]
  show ?thesis by (simp add: lambda_handler_calls del: records_loop.simps)
qed

section \<open>Properties of the table extractor\<close>

lemma page_tables_loop_eq:
  "page_tables_loop tables page_tables =
     tables @ map (map (map clean_cell)) (filter (\<lambda>t. t \<noteq> []) page_tables)"
  by (induction page_tables arbitrary: tables) (simp_all add: Let_def)

lemma pages_loop_eq:
  "pages_loop tables pages =
     tables @ map (map (map clean_cell)) (filter (\<lambda>t. t \<noteq> []) (concat pages))"
  by (induction pages arbitrary: tables) (simp_all add: page_tables_loop_eq)

lemma clean_cell_case:
  "clean_cell = (\<lambda>cell. case cell of PyNone \<Rightarrow> [] | PyStr s \<Rightarrow> s | PyInt i \<Rightarrow> str_int i)"
  by (rule ext) (simp split: pycell.split)

lemma length_filter_nonempty:
  "length (filter (\<lambda>t. t \<noteq> []) ts) = length ts - count_list ts []"
proof (induction ts)
  case Nil
  then show ?case by simp
next
  case (Cons t ts)
  have "count_list ts [] \<le> length ts" by (rule count_le_length)
  with Cons show ?case by auto
qed

text \<open>
  C5. When the document library returns the tables of the pages, the extractor returns
  the non-empty ones in page order and detection order, each with its rows and cells in
  place: an absent cell as the empty string, a string as itself, another value as its
  \<^verbatim>\<open>str\<close>. The result is a list of lists of lists of strings, so no cell of it is an
  absent marker.
\<close>

theorem extractor_normalizes_cells:
  assumes "pdf_page_tables env pdf_content = Inr pages"
  shows "extract_tables_from_pdf env pdf_content =
           Inr (map (\<lambda>table. map (\<lambda>row. map (\<lambda>cell. case cell of PyNone \<Rightarrow> []
                                                        | PyStr s \<Rightarrow> s
                                                        | PyInt i \<Rightarrow> str_int i) row) table)
                  (filter (\<lambda>table. table \<noteq> []) (concat pages)))"
  using assms by (simp add: extract_tables_from_pdf_def pages_loop_eq clean_cell_case)

theorem extractor_normalizes_cells_witness:
  "extract_tables_from_pdf mock_env ''one table'' = Inr [[[''a'', []]]]"
proof -
  have "pdf_page_tables mock_env ''one table'' = Inr [[[[PyStr ''a'', PyNone]], []], []]"
    by (simp add: mock_env_def)
  from extractor_normalizes_cells [OF this] show ?thesis by simp
qed

text \<open>
  C9. No table of the extractor's result is empty: a table that the page detector
  reports without rows is left out, so the result has as many tables as the detector
  reported non-empty ones, which can be fewer than it reported.
\<close>

theorem extractor_omits_empty_tables:
  "(pdf_page_tables env pdf_content = Inr pages \<longrightarrow>
      (\<exists>tables. extract_tables_from_pdf env pdf_content = Inr tables \<and>
         [] \<notin> set tables \<and>
         length tables = length (concat pages) - count_list (concat pages) [] \<and>
         length tables \<le> length (concat pages))) \<and>
   (\<exists>pages'. length (pages_loop [] pages') < length (concat pages'))"
proof (intro conjI impI)
  assume "pdf_page_tables env pdf_content = Inr pages"
  then have "extract_tables_from_pdf env pdf_content =
      Inr (map (map (map clean_cell)) (filter (\<lambda>t. t \<noteq> []) (concat pages)))"
    by (simp add: extract_tables_from_pdf_def pages_loop_eq)
  moreover have "[] \<notin> set (map (map (map clean_cell)) (filter (\<lambda>t. t \<noteq> []) (concat pages)))"
    by auto
  ultimately show "\<exists>tables. extract_tables_from_pdf env pdf_content = Inr tables \<and>
         [] \<notin> set tables \<and>
         length tables = length (concat pages) - count_list (concat pages) [] \<and>
         length tables \<le> length (concat pages)"
    by (simp add: length_filter_nonempty)
next
  have "length (pages_loop [] [[[] :: pycell list list]]) < length (concat [[[] :: pycell list list]])"
    by simp
  then show "\<exists>pages'. length (pages_loop [] pages') < length (concat pages')" ..
qed

theorem extractor_omits_empty_tables_witness:
  "extract_tables_from_pdf mock_env ''one table'' = Inr [[[''a'', []]]] \<and>
   length (concat [[[[PyStr ''a'', PyNone]], []], [] :: pycell list list list]) = 2"
proof -
  have "pdf_page_tables mock_env ''one table'' = Inr [[[[PyStr ''a'', PyNone]], []], []]"
    by (simp add: mock_env_def)
  with extractor_omits_empty_tables [of mock_env "''one table''" "[[[[PyStr ''a'', PyNone]], []], []]"]
  show ?thesis by (simp add: extract_tables_from_pdf_def)
qed

section \<open>Properties of the workbook builder\<close>




text \<open>
  C4. When the extractor finds no table in a document, the orchestrator builds the
  workbook from a single table of one row with one cell, the fixed message: the builder
  accepts it, and the workbook that is saved and written has exactly one sheet, whose
  only cell with a value is the cell (1, 1), which holds the message.
\<close>

theorem no_tables_gives_placeholder_workbook:
  assumes "get_object env w bucket key = (Inr pdf_content, w1)"
    and "extract_tables_from_pdf env pdf_content = Inr []"
  shows "\<exists>wb. build_workbook [[[''No tables found in the PDF file'']]] = Inr wb \<and>
           process_pdf env bucket key w =
             (case save env wb of
                Inl e \<Rightarrow> (Inl e, w1, [GetObject bucket key, PdfOpen pdf_content])
              | Inr excel_content \<Rightarrow>
                  (case put_object env w1 bucket (output_key env key) excel_content
                          xlsx_content_type of
                     (r, w2) \<Rightarrow>
                       (r, w2,
                        [GetObject bucket key, PdfOpen pdf_content,
                         PutObject bucket (output_key env key) excel_content
                           xlsx_content_type]))) \<and>
           (\<exists>ws. worksheets wb = [ws] \<and>
                 title ws = ''Table_1'' \<and>
                 cells ws =
                   (\<lambda>p. if p = (1, 1) then Some ''No tables found in the PDF file'' else None))"
proof -
  let ?m = "''No tables found in the PDF file''"
  have "accepted [[[?m]]]"
    by (simp add: accepted_def legal_def illegal_character_def)
  from build_workbook_total [OF this] obtain wb where wb: "build_workbook [[[?m]]] = Inr wb" ..
  have run: "process_pdf env bucket key w =
             (case save env wb of
                Inl e \<Rightarrow> (Inl e, w1, [GetObject bucket key, PdfOpen pdf_content])
              | Inr excel_content \<Rightarrow>
                  (case put_object env w1 bucket (output_key env key) excel_content
                          xlsx_content_type of
                     (r, w2) \<Rightarrow>
                       (r, w2,
                        [GetObject bucket key, PdfOpen pdf_content,
                         PutObject bucket (output_key env key) excel_content
                           xlsx_content_type])))"
    using assms wb
    by (simp add: process_pdf_def create_excel_from_tables_def no_tables_message_def
        split: sum.splits prod.splits)
  have one: "str_nat (0 + 1) = ''1''" by code_simp
  have len: "length (worksheets wb) = 1"
    using build_workbook_length [OF _ wb] by simp
  have sheet: "table_sheet (0 + 1) ([[[?m]]] ! 0) = Inr (worksheets wb ! 0)"
    by (rule build_workbook_nth [OF wb]) simp
  have ws: "worksheets wb = [worksheets wb ! 0]"
    using len by (cases "worksheets wb") simp_all
  have t: "title (worksheets wb ! 0) = ''Table_1''"
    using table_sheet_title [OF sheet] by (simp only: one) simp
  have c: "cells (worksheets wb ! 0) = (\<lambda>p. if p = (1, 1) then Some ?m else None)"
  proof (rule ext)
    fix p :: "nat \<times> nat"
    obtain r c where p: "p = (r, c)" by (cases p)
    show "cells (worksheets wb ! 0) p = (if p = (1, 1) then Some ?m else None)"
      unfolding p table_sheet_cells [OF sheet] by auto
  qed
  from ws t c have "\<exists>ws. worksheets wb = [ws] \<and> title ws = ''Table_1'' \<and>
      cells ws = (\<lambda>p. if p = (1, 1) then Some ?m else None)"
    by blast
  with wb run show ?thesis by blast
qed

theorem no_tables_gives_placeholder_workbook_witness:
  "process_pdf mock_env ''b'' ''input-pdf-files/empty.pdf'' mock_store =
     (Inr (), mock_store((''b'', ''output-files/empty.xlsx'') := Some ''PK''),
      [GetObject ''b'' ''input-pdf-files/empty.pdf'', PdfOpen ''no tables'',
       PutObject ''b'' ''output-files/empty.xlsx'' ''PK'' xlsx_content_type])"
proof -
  have g: "get_object mock_env mock_store ''b'' ''input-pdf-files/empty.pdf'' =
      (Inr ''no tables'', mock_store)"
    by (simp add: mock_env_def mock_store_def)
  have x: "extract_tables_from_pdf mock_env ''no tables'' = Inr []"
    by (simp add: extract_tables_from_pdf_def mock_env_def)
  have "fst (splitext (basename ''input-pdf-files/empty.pdf'')) = ''empty''"
    by code_simp
  then have ok: "output_key mock_env ''input-pdf-files/empty.pdf'' = ''output-files/empty.xlsx''"
    by (simp add: output_key_def mock_env_def)
  have s: "\<And>wb. save mock_env wb = Inr ''PK''"
    by (simp add: mock_env_def)
  have p: "put_object mock_env mock_store ''b'' ''output-files/empty.xlsx'' ''PK'' xlsx_content_type =
      (Inr (), mock_store((''b'', ''output-files/empty.xlsx'') := Some ''PK''))"
    by (simp add: mock_env_def)
  from no_tables_gives_placeholder_workbook [OF g x] obtain wb
    where "process_pdf mock_env ''b'' ''input-pdf-files/empty.pdf'' mock_store =
             (case save mock_env wb of
                Inl e \<Rightarrow> (Inl e, mock_store,
                  [GetObject ''b'' ''input-pdf-files/empty.pdf'', PdfOpen ''no tables''])
              | Inr excel_content \<Rightarrow>
                  (case put_object mock_env mock_store ''b''
                          (output_key mock_env ''input-pdf-files/empty.pdf'') excel_content
                          xlsx_content_type of
                     (r, w2) \<Rightarrow>
                       (r, w2,
                        [GetObject ''b'' ''input-pdf-files/empty.pdf'', PdfOpen ''no tables'',
                         PutObject ''b'' (output_key mock_env ''input-pdf-files/empty.pdf'')
                           excel_content xlsx_content_type])))"
    by blast
  then show ?thesis
    by (simp only: ok s p sum.case prod.case)
qed

text \<open>
  C8. The builder produces a workbook whenever the library accepts the TableSet, and in
  every sheet of a workbook it produces, every column of the sheet (1 to its largest
  column index) has the width min(max_length + 2, 50), where max_length is the greatest
  length of a value in the column's cells, and 0 when the column has no value. The cell
  values are strings, so no length computation raises.
\<close>

theorem column_widths_are_capped_max_length:
  "(accepted tables \<longrightarrow> (\<exists>wb. build_workbook tables = Inr wb)) \<and>
   (\<forall>wb. build_workbook tables = Inr wb \<longrightarrow>
      (\<forall>ws \<in> set (worksheets wb). \<forall>c \<in> {1..max_column ws}.
         column_dimensions ws (column_letter c) = Some (min (column_max_length ws c + 2) 50)))"
proof (intro conjI impI allI ballI)
  assume "accepted tables"
  then show "\<exists>wb. build_workbook tables = Inr wb" by (rule build_workbook_total)
next
  fix wb ws c
  assume wb: "build_workbook tables = Inr wb"
    and ws: "ws \<in> set (worksheets wb)" and c: "c \<in> {1..max_column ws}"
  show "column_dimensions ws (column_letter c) = Some (min (column_max_length ws c + 2) 50)"
  proof (cases "tables = []")
    case True
    with wb ws have "ws = new_sheet ''Sheet''"
      by (auto simp: build_workbook_empty Workbook_def)
    with c show ?thesis by (simp add: new_sheet_def)
  next
    case False
    from ws obtain i where i: "i < length (worksheets wb)" and w: "ws = worksheets wb ! i"
      by (auto simp: in_set_conv_nth)
    from i have "i < length tables"
      by (simp add: build_workbook_length [OF False wb])
    from build_workbook_nth [OF wb this] have "table_sheet (i + 1) (tables ! i) = Inr ws"
      by (simp add: w)
    from table_sheet_widths [OF this] c show ?thesis by simp
  qed
qed

theorem column_widths_are_capped_max_length_witness:
  "\<exists>wb. build_workbook [[[''Header1'', []], [''x'']], [[replicate 60 (CHR ''x'')]]] = Inr wb \<and>
     column_dimensions (worksheets wb ! 0) ''A'' = Some 9 \<and>
     column_dimensions (worksheets wb ! 0) ''B'' = Some 2 \<and>
     column_dimensions (worksheets wb ! 1) ''A'' = Some 50"
proof -
  let ?t0 = "[[''Header1'', []], [''x'']]"
  let ?t1 = "[[replicate 60 (CHR ''x'')]]"
  let ?tables = "[?t0, ?t1]"
  note th = column_widths_are_capped_max_length [of ?tables]
  have l: "legal ''Header1''" "legal []" "legal ''x''" "legal (replicate 60 (CHR ''x''))"
    by (simp_all add: legal_def illegal_character_def)
  then have "accepted ?tables" by (simp add: accepted_def)
  with th obtain wb where wb: "build_workbook ?tables = Inr wb" by blast
  let ?ws = "worksheets wb"
  have w0: "table_sheet 1 ?t0 = Inr (?ws ! 0)"
    using build_workbook_nth [OF wb, of 0] by simp
  have w1: "table_sheet 2 ?t1 = Inr (?ws ! 1)"
    using build_workbook_nth [OF wb, of 1] by (simp add: numeral_2_eq_2)
  have len: "length ?ws = 2"
    using build_workbook_length [OF _ wb] by simp
  from w0 obtain u0
    where a0: "write_rows (new_sheet (''Table_'' @ str_nat 1)) 1 ?t0 = Inr u0"
      and b0: "adjust_widths u0 (columns u0) = Inr (?ws ! 0)"
    by (rule table_sheet_parts)
  from a0 l have "max_row u0 = 2 \<and> max_column u0 = 2"
    by (auto simp: cell_cases new_sheet_def)
  with adjust_widths_fields [OF b0]
  have dims0: "max_row (?ws ! 0) = 2" "max_column (?ws ! 0) = 2" by simp_all
  from w1 obtain u1
    where a1: "write_rows (new_sheet (''Table_'' @ str_nat 2)) 1 ?t1 = Inr u1"
      and b1: "adjust_widths u1 (columns u1) = Inr (?ws ! 1)"
    by (rule table_sheet_parts)
  from a1 l have "max_row u1 = 1 \<and> max_column u1 = 1"
    by (auto simp: cell_cases new_sheet_def)
  with adjust_widths_fields [OF b1]
  have dims1: "max_row (?ws ! 1) = 1" "max_column (?ws ! 1) = 1" by simp_all
  have rows: "{1..2::nat} = {1, 2}" "{1..1::nat} = {1}" by auto
  have m0a: "column_max_length (?ws ! 0) 1 = 7"
    unfolding column_max_length_def dims0 rows by (simp add: table_sheet_cells [OF w0])
  have m0b: "column_max_length (?ws ! 0) 2 = 0"
    unfolding column_max_length_def dims0 rows by (simp add: table_sheet_cells [OF w0])
  have "cells (?ws ! 1) (1, 1) = Some (replicate 60 (CHR ''x''))"
    using table_sheet_cells [OF w1, of 1 1] by simp
  then have c1: "cells (?ws ! Suc 0) (Suc 0, Suc 0) = Some (replicate 60 (CHR ''x''))"
    by simp
  have m1a: "column_max_length (?ws ! 1) 1 = 60"
    unfolding column_max_length_def dims1 rows by (simp add: c1)
  have letters: "column_letter 1 = ''A''" "column_letter 2 = ''B''"
    by code_simp+
  have in0: "?ws ! 0 \<in> set ?ws" and in1: "?ws ! 1 \<in> set ?ws"
    using len by (simp_all only: nth_mem)
  from th wb in0 have a: "\<forall>c \<in> {1..max_column (?ws ! 0)}.
      column_dimensions (?ws ! 0) (column_letter c) =
        Some (min (column_max_length (?ws ! 0) c + 2) 50)"
    by blast
  from th wb in1 have b: "\<forall>c \<in> {1..max_column (?ws ! 1)}.
      column_dimensions (?ws ! 1) (column_letter c) =
        Some (min (column_max_length (?ws ! 1) c + 2) 50)"
    by blast
  from a have "column_dimensions (?ws ! 0) (column_letter 1) =
      Some (min (column_max_length (?ws ! 0) 1 + 2) 50)"
    unfolding dims0 by simp
  then have r1: "column_dimensions (?ws ! 0) ''A'' = Some 9"
    unfolding m0a letters by simp
  from a have "column_dimensions (?ws ! 0) (column_letter 2) =
      Some (min (column_max_length (?ws ! 0) 2 + 2) 50)"
    unfolding dims0 by simp
  then have r2: "column_dimensions (?ws ! 0) ''B'' = Some 2"
    unfolding m0b letters by simp
  from b have "column_dimensions (?ws ! 1) (column_letter 1) =
      Some (min (column_max_length (?ws ! 1) 1 + 2) 50)"
    unfolding dims1 by simp
  then have r3: "column_dimensions (?ws ! 1) ''A'' = Some 50"
    unfolding m1a letters by simp
  from wb r1 r2 r3 show ?thesis by blast
qed

section \<open>The output key\<close>

lemma rfind_absent:
  assumes "c \<notin> set p"
  shows "rfind p c = - 1"
proof -
  have "\<forall>x \<in> set (rev p). x \<noteq> c" using assms by auto
  then have tw: "takeWhile (\<lambda>x. x \<noteq> c) (rev p) = rev p"
    by (rule takeWhile_eq_all_conv [THEN iffD2])
  show ?thesis unfolding rfind_def tw by simp
qed

lemma rfind_last: "c \<notin> set b \<Longrightarrow> rfind (a @ c # b) c = int (length a)"
proof -
  assume "c \<notin> set b"
  then have "takeWhile (\<lambda>x. x \<noteq> c) (rev b @ c # rev a) = rev b"
    by (subst takeWhile_append2) auto
  then show ?thesis by (simp add: rfind_def)
qed

lemma basename_split:
  "\<exists>dir. key = dir @ basename key \<and> (dir = [] \<or> last dir = CHR ''/'')" and
  basename_no_slash: "CHR ''/'' \<notin> set (basename key)"
proof -
  have "(\<exists>dir. key = dir @ basename key \<and> (dir = [] \<or> last dir = CHR ''/'')) \<and>
      CHR ''/'' \<notin> set (basename key)"
  proof (cases "CHR ''/'' \<in> set key")
    case False
    then show ?thesis by (simp add: basename_def rfind_absent)
  next
    case True
    then obtain a b where ab: "key = a @ CHR ''/'' # b" and b: "CHR ''/'' \<notin> set b"
      by (auto dest: split_list_last)
    have "nat (int (length a) + 1) = Suc (length a)" by simp
    with rfind_last [OF b, of a] have "basename key = b"
      by (simp add: basename_def ab)
    moreover have "key = (a @ ''/'') @ b" by (simp add: ab)
    ultimately show ?thesis using b by (metis last_snoc)
  qed
  then show "\<exists>dir. key = dir @ basename key \<and> (dir = [] \<or> last dir = CHR ''/'')"
    and "CHR ''/'' \<notin> set (basename key)" by blast+
qed

lemma non_dot_before_iff:
  "non_dot_before p i d \<longleftrightarrow> (\<exists>j. i \<le> j \<and> j < d \<and> take 1 (drop j p) \<noteq> ''.'')"
proof (induction p i d rule: non_dot_before.induct)
  case (1 p i d)
  show ?case
  proof (cases "i < d")
    case False
    then show ?thesis by (subst non_dot_before.simps) auto
  next
    case True
    show ?thesis
    proof (cases "take 1 (drop i p) \<noteq> ''.''")
      case ne: True
      with True show ?thesis by (subst non_dot_before.simps) auto
    next
      case eq: False
      with True "1.IH" have "non_dot_before p i d \<longleftrightarrow>
          (\<exists>j. Suc i \<le> j \<and> j < d \<and> take 1 (drop j p) \<noteq> ''.'')"
        by (subst non_dot_before.simps) simp
      also have "\<dots> \<longleftrightarrow> (\<exists>j. i \<le> j \<and> j < d \<and> take 1 (drop j p) \<noteq> ''.'')"
      proof
        assume "\<exists>j. Suc i \<le> j \<and> j < d \<and> take 1 (drop j p) \<noteq> ''.''"
        then obtain j where "Suc i \<le> j" "j < d" "take 1 (drop j p) \<noteq> ''.''" by blast
        then have "i \<le> j \<and> j < d \<and> take 1 (drop j p) \<noteq> ''.''" by simp
        then show "\<exists>j. i \<le> j \<and> j < d \<and> take 1 (drop j p) \<noteq> ''.''" ..
      next
        assume "\<exists>j. i \<le> j \<and> j < d \<and> take 1 (drop j p) \<noteq> ''.''"
        then obtain j where j: "i \<le> j" "j < d" "take 1 (drop j p) \<noteq> ''.''" by blast
        with eq have "j \<noteq> i" by auto
        with j have "Suc i \<le> j \<and> j < d \<and> take 1 (drop j p) \<noteq> ''.''" by simp
        then show "\<exists>j. Suc i \<le> j \<and> j < d \<and> take 1 (drop j p) \<noteq> ''.''" ..
      qed
      finally show ?thesis .
    qed
  qed
qed

lemma take_one_drop: "j < length p \<Longrightarrow> take 1 (drop j p) = [p ! j]"
proof (induction p arbitrary: j)
  case Nil
  then show ?case by simp
next
  case (Cons x p)
  then show ?case by (cases j) simp_all
qed

lemma non_dot_before_prefix:
  "non_dot_before (a @ rest) 0 (length a) \<longleftrightarrow> (\<exists>x \<in> set a. x \<noteq> CHR ''.'')"
proof -
  have one: "take 1 (drop j (a @ rest)) \<noteq> ''.'' \<longleftrightarrow> a ! j \<noteq> CHR ''.''" if "j < length a" for j
  proof -
    from that have "take 1 (drop j (a @ rest)) = [(a @ rest) ! j]"
      by (intro take_one_drop) simp
    with that show ?thesis by (simp add: nth_append)
  qed
  have "non_dot_before (a @ rest) 0 (length a) \<longleftrightarrow>
      (\<exists>j. 0 \<le> j \<and> j < length a \<and> take 1 (drop j (a @ rest)) \<noteq> ''.'')"
    by (rule non_dot_before_iff)
  also have "\<dots> \<longleftrightarrow> (\<exists>j < length a. a ! j \<noteq> CHR ''.'')"
    using one by blast
  also have "\<dots> \<longleftrightarrow> (\<exists>x \<in> set a. x \<noteq> CHR ''.'')"
    by (metis in_set_conv_nth)
  finally show ?thesis .
qed

lemma splitext_filename:
  assumes "CHR ''/'' \<notin> set f"
  shows "\<exists>stem ext. splitext f = (stem, ext) \<and> f = stem @ ext \<and>
           (ext = [] \<or> (hd ext = CHR ''.'' \<and> CHR ''.'' \<notin> set (tl ext) \<and>
                        (\<exists>x \<in> set stem. x \<noteq> CHR ''.''))) \<and>
           (ext = [] \<longrightarrow> CHR ''.'' \<notin> set (dropWhile (\<lambda>x. x = CHR ''.'') stem))"
proof (cases "CHR ''.'' \<in> set f")
  case False
  then have "splitext f = (f, [])"
    using assms by (simp add: splitext_def rfind_absent)
  moreover from False have "CHR ''.'' \<notin> set (dropWhile (\<lambda>x. x = CHR ''.'') f)"
    by (auto dest: set_dropWhileD)
  ultimately show ?thesis by simp
next
  case True
  then obtain a b where ab: "f = a @ CHR ''.'' # b" and b: "CHR ''.'' \<notin> set b"
    by (auto dest: split_list_last)
  have sep: "rfind f (CHR ''/'') = - 1"
    using assms by (rule rfind_absent)
  have dot: "rfind f (CHR ''.'') = int (length a)"
    unfolding ab using b by (rule rfind_last)
  have loop: "non_dot_before f 0 (length a) \<longleftrightarrow> (\<exists>x \<in> set a. x \<noteq> CHR ''.'')"
    unfolding ab by (rule non_dot_before_prefix)
  show ?thesis
  proof (cases "\<exists>x \<in> set a. x \<noteq> CHR ''.''")
    case some: True
    with loop have "splitext f = (a, CHR ''.'' # b)"
      by (simp add: splitext_def sep dot) (simp add: ab)
    with some b ab show ?thesis by simp
  next
    case none: False
    with loop have s: "splitext f = (f, [])"
      by (simp add: splitext_def sep dot)
    from none have "dropWhile (\<lambda>x. x = CHR ''.'') f = dropWhile (\<lambda>x. x = CHR ''.'') b"
      unfolding ab by (simp add: dropWhile_append2)
    with b have "CHR ''.'' \<notin> set (dropWhile (\<lambda>x. x = CHR ''.'') f)"
      by (auto dest: set_dropWhileD)
    with s show ?thesis by simp
  qed
qed

text \<open>
  C3. The output key is the output folder name, a slash, a stem and \<^verbatim>\<open>.xlsx\<close>, where
  the input key splits into a directory part (empty or ending in a slash), the stem and
  an extension without a slash. The extension is the part from the last dot of the file
  name on, provided a character other than a dot stands before that dot; a file name
  without such a dot has no extension and is the stem as a whole, so the key
  \<^verbatim>\<open>input-pdf-files/.pdf\<close> gives the stem \<^verbatim>\<open>.pdf\<close>. The two keys of the specification
  both give \<^verbatim>\<open>output-files/report.xlsx\<close>.
\<close>

theorem output_key_derivation:
  "(\<exists>dir stem ext.
      key = dir @ stem @ ext \<and>
      (dir = [] \<or> last dir = CHR ''/'') \<and>
      CHR ''/'' \<notin> set (stem @ ext) \<and>
      (ext = [] \<or> (hd ext = CHR ''.'' \<and> CHR ''.'' \<notin> set (tl ext) \<and>
                   (\<exists>x \<in> set stem. x \<noteq> CHR ''.''))) \<and>
      (ext = [] \<longrightarrow> CHR ''.'' \<notin> set (dropWhile (\<lambda>x. x = CHR ''.'') stem)) \<and>
      output_key env key = OUTPUT_FOLDER_NAME env @ ''/'' @ stem @ ''.xlsx'') \<and>
   output_key env ''input-pdf-files/.pdf'' = OUTPUT_FOLDER_NAME env @ ''/.pdf.xlsx'' \<and>
   (OUTPUT_FOLDER_NAME env = ''output-files'' \<longrightarrow>
      output_key env ''input-pdf-files/report.pdf'' = ''output-files/report.xlsx'' \<and>
      output_key env ''input-pdf-files/sub/dir/report.PDF'' = ''output-files/report.xlsx'')"
proof (intro conjI impI)
  obtain dir where dir: "key = dir @ basename key" "dir = [] \<or> last dir = CHR ''/''"
    using basename_split [of key] by blast
  from splitext_filename [OF basename_no_slash [of key]]
  obtain stem ext where se: "splitext (basename key) = (stem, ext)"
    "basename key = stem @ ext"
    "ext = [] \<or> (hd ext = CHR ''.'' \<and> CHR ''.'' \<notin> set (tl ext) \<and> (\<exists>x \<in> set stem. x \<noteq> CHR ''.''))"
    "ext = [] \<longrightarrow> CHR ''.'' \<notin> set (dropWhile (\<lambda>x. x = CHR ''.'') stem)"
    by blast
  have "key = dir @ stem @ ext" using dir(1) se(2) by simp
  moreover have "CHR ''/'' \<notin> set (stem @ ext)"
    using basename_no_slash [of key] se(2) by simp
  moreover have "output_key env key = OUTPUT_FOLDER_NAME env @ ''/'' @ stem @ ''.xlsx''"
    by (simp add: output_key_def se(1))
  ultimately show "\<exists>dir stem ext.
      key = dir @ stem @ ext \<and>
      (dir = [] \<or> last dir = CHR ''/'') \<and>
      CHR ''/'' \<notin> set (stem @ ext) \<and>
      (ext = [] \<or> (hd ext = CHR ''.'' \<and> CHR ''.'' \<notin> set (tl ext) \<and>
                   (\<exists>x \<in> set stem. x \<noteq> CHR ''.''))) \<and>
      (ext = [] \<longrightarrow> CHR ''.'' \<notin> set (dropWhile (\<lambda>x. x = CHR ''.'') stem)) \<and>
      output_key env key = OUTPUT_FOLDER_NAME env @ ''/'' @ stem @ ''.xlsx''"
    using dir(2) se(3,4) by blast
next
  have "fst (splitext (basename ''input-pdf-files/.pdf'')) = ''.pdf''"
    by code_simp
  then show "output_key env ''input-pdf-files/.pdf'' = OUTPUT_FOLDER_NAME env @ ''/.pdf.xlsx''"
    by (simp add: output_key_def)
next
  assume out: "OUTPUT_FOLDER_NAME env = ''output-files''"
  have "fst (splitext (basename ''input-pdf-files/report.pdf'')) = ''report''"
    by code_simp
  then show "output_key env ''input-pdf-files/report.pdf'' = ''output-files/report.xlsx''"
    by (simp add: output_key_def out)
next
  assume out: "OUTPUT_FOLDER_NAME env = ''output-files''"
  have "fst (splitext (basename ''input-pdf-files/sub/dir/report.PDF'')) = ''report''"
    by code_simp
  then show "output_key env ''input-pdf-files/sub/dir/report.PDF'' = ''output-files/report.xlsx''"
    by (simp add: output_key_def out)
qed

theorem output_key_derivation_witness:
  "output_key mock_env ''input-pdf-files/report.pdf'' = ''output-files/report.xlsx'' \<and>
   output_key mock_env ''input-pdf-files/sub/dir/report.PDF'' = ''output-files/report.xlsx''"
proof -
  have "OUTPUT_FOLDER_NAME mock_env = ''output-files''"
    by (simp add: mock_env_def)
  with output_key_derivation [of "''input-pdf-files/report.pdf''" mock_env]
  show ?thesis by blast
qed

end
